theory Spec2Isabelle
  imports Main "HOL-Library.Sublist"
begin

section \<open>The record model (xml.go, type Page)\<close>

text \<open>
  Go strings are byte sequences; a \<^typ>\<open>string\<close> is a list of 8-bit characters.
  The anonymous structs nested in \<open>Page\<close> become records of their own; a field
  name that occurs in several structs is prefixed with the name of its struct.
  The field \<open>XMLName\<close> only fixes the element name and carries no data.
\<close>

record redirect_struct =
  Redirect_Text :: string
  Redirect_Title :: string

record contributor_struct =
  Contributor_Text :: string
  Username :: string
  Contributor_ID :: string

record text_struct =
  Text_Text :: string
  Bytes :: string
  Space :: string

record revision_struct =
  Chardata :: string
  Revision_ID :: string
  Parentid :: string
  Timestamp :: string
  Contributor :: contributor_struct
  Comment :: string
  Model :: string
  Format :: string
  Revision_Text :: text_struct
  Sha1 :: string

record Page =
  Text :: string
  Title :: string
  Ns :: string
  ID :: string
  Redirect :: redirect_struct
  Revision :: revision_struct

text \<open>\<open>p.Revision.Text.Text\<close>, read and assigned.\<close>

definition body :: "Page \<Rightarrow> string" where
  "body p = Text_Text (Revision_Text (Revision p))"

definition set_body :: "string \<Rightarrow> Page \<Rightarrow> Page" where
  "set_body b p =
     p\<lparr>Revision := (Revision p)\<lparr>Revision_Text := (Revision_Text (Revision p))\<lparr>Text_Text := b\<rparr>\<rparr>\<rparr>"

section \<open>The functions of package strings that the program calls\<close>

text \<open>\<open>strings.HasPrefix(s, prefix)\<close>: \<open>len(s) >= len(prefix) && s[:len(prefix)] == prefix\<close>.\<close>

definition HasPrefix :: "string \<Rightarrow> string \<Rightarrow> bool" where
  "HasPrefix s pre = (length pre \<le> length s \<and> take (length pre) s = pre)"

text \<open>
  \<open>strings.ReplaceAll(s, old, new)\<close> (and \<open>strings.Replace(s, old, new, -1)\<close>): the
  occurrences of \<open>old\<close> are found from left to right, each search starting behind the
  previous occurrence, and each is replaced by \<open>new\<close>. The program calls it with
  non-empty literals for \<open>old\<close> only; with an empty \<open>old\<close> Go inserts \<open>new\<close> around every
  UTF-8 sequence, which this definition does not model.
\<close>

fun ReplaceAll :: "string \<Rightarrow> string \<Rightarrow> string \<Rightarrow> string" where
  "ReplaceAll [] old new = []"
| "ReplaceAll (c # cs) old new =
     (if HasPrefix (c # cs) old
      then new @ ReplaceAll (drop (length old - 1) cs) old new
      else c # ReplaceAll cs old new)"

text \<open>\<open>find\<close> (xml.go:217): linear search in a slice of strings.\<close>

fun find_slice :: "string list \<Rightarrow> string \<Rightarrow> bool" where
  "find_slice [] val = False"
| "find_slice (p # slice) val = (if p = val then True else find_slice slice val)"

section \<open>The worker (xml.go, startWorker)\<close>

text \<open>
  The program recovers from no panic, so a panic in any goroutine ends the whole
  process; it is the error of the model. The first four are the calls of \<open>panic\<close> in
  the source; the last two are raised by the runtime, for a send on a closed channel
  and for a wait group whose counter becomes negative.
\<close>

datatype error =
    PanicOpen
  | PanicCreate
  | PanicWrite
  | PanicMarshal
  | PanicSendOnClosed
  | PanicNegativeCounter

text \<open>
  The two serialisers of \<open>encoding/xml\<close> are library code. A call is recorded as a
  value, and the bytes it returns are given by a parameter \<open>enc\<close> of the run, \<open>None\<close>
  when the call returns an error.
\<close>

datatype MarshalCall = Marshal Page | MarshalIndent Page string string

fun marshalled_page :: "MarshalCall \<Rightarrow> Page" where
  "marshalled_page (Marshal p) = p"
| "marshalled_page (MarshalIndent p pre ind) = p"

text \<open>
  \<open>Marshal\<close> writes no indentation; \<open>MarshalIndent\<close> starts every element on a new line
  behind \<open>prefix\<close> and one \<open>indent\<close> for each level, and writes none when both are empty.
\<close>

fun indented :: "MarshalCall \<Rightarrow> bool" where
  "indented (Marshal p) = False"
| "indented (MarshalIndent p pre ind) = (pre \<noteq> [] \<or> ind \<noteq> [])"

datatype LogEvent =
    ProcessingTitle string
  | ErrorParsingTitle string
  | ExitingWorker
  | DuplicateTitle string
  | ReaderDone

text \<open>
  What one worker has done so far: the items it sent on \<open>OutText\<close>, the standard
  input of every run of the parse script, the calls of the serialisers, and its log
  lines, each in the order of execution.
\<close>

record Trace =
  OutText :: "string list"
  Invocations :: "string list"
  Marshalled :: "MarshalCall list"
  Log :: "LogEvent list"

text \<open>The trace of a worker that has not done anything yet.\<close>

definition no_trace :: Trace where
  "no_trace = \<lparr>OutText = [], Invocations = [], Marshalled = [], Log = []\<rparr>"

text \<open>One trace behind another.\<close>

definition append_trace :: "Trace \<Rightarrow> Trace \<Rightarrow> Trace" where
  "append_trace t d =
     \<lparr>OutText = OutText t @ OutText d, Invocations = Invocations t @ Invocations d,
      Marshalled = Marshalled t @ Marshalled d, Log = Log t @ Log d\<rparr>"

definition SPEC_START :: string where
  "SPEC_START = ''<SPEC_START>''"

definition SPEC_END :: string where
  "SPEC_END = ''<SPEC_END>''"

text \<open>
  The body of the loop of \<open>startWorker\<close>, for one page \<open>p\<close> received from \<open>InPage\<close>.
  \<open>script\<close> is \<open>exec.Command(w.ParseScript)\<close> with \<open>CombinedOutput\<close>: it maps the
  standard input to the output, \<open>None\<close> when \<open>err != nil\<close>. The script and the
  serialisers are functions of their input: a second call on the same input gives the
  same answer. The three assignments to \<open>p.Revision.Text.Text\<close> are the three
  \<open>set_body\<close>.
\<close>

definition startWorker_body ::
  "(string \<Rightarrow> string option) \<Rightarrow> (MarshalCall \<Rightarrow> string option) \<Rightarrow> Page \<Rightarrow> Trace \<Rightarrow> error + Trace" where
  "startWorker_body script enc p t =
     (let t = t\<lparr>Log := Log t @ [ProcessingTitle (Title p)]\<rparr> in
      if HasPrefix (body p) ''#REDIRECT'' then
        (let t = t\<lparr>Marshalled := Marshalled t @ [Marshal p]\<rparr> in
         case enc (Marshal p) of
           None \<Rightarrow> Inl PanicMarshal
         | Some output \<Rightarrow> Inr (t\<lparr>OutText := OutText t @ [output]\<rparr>))
      else
        (let p = set_body (ReplaceAll (body p) ''[['' SPEC_START) p;
             p = set_body (ReplaceAll (body p) '']]'' SPEC_END) p;
             t = t\<lparr>Invocations := Invocations t @ [body p]\<rparr>
         in case script (body p) of
              None \<Rightarrow> Inr (t\<lparr>Log := Log t @ [ErrorParsingTitle (Title p)]\<rparr>)
            | Some clean \<Rightarrow>
                (let new = ReplaceAll clean SPEC_START ''[['';
                     new = ReplaceAll new SPEC_END '']]'';
                     p = set_body new p;
                     t = t\<lparr>Marshalled := Marshalled t @ [MarshalIndent p ''  '' ''    '']\<rparr>
                 in case enc (MarshalIndent p ''  '' ''    '') of
                      None \<Rightarrow> Inl PanicMarshal
                    | Some output \<Rightarrow> Inr (t\<lparr>OutText := OutText t @ [output]\<rparr>))))"

text \<open>
  The loop of \<open>startWorker\<close> over the pages this worker receives until \<open>InPage\<close> is
  closed and empty, and \<open>startWorker\<close> itself, which logs its exit behind the loop.
  Each worker of the pool runs \<open>startWorker\<close> on the pages it happens to receive.
\<close>

fun startWorker_loop ::
  "(string \<Rightarrow> string option) \<Rightarrow> (MarshalCall \<Rightarrow> string option) \<Rightarrow> Page list \<Rightarrow> Trace \<Rightarrow> error + Trace" where
  "startWorker_loop script enc [] t = Inr t"
| "startWorker_loop script enc (p # ps) t =
     (case startWorker_body script enc p t of
        Inl e \<Rightarrow> Inl e
      | Inr t' \<Rightarrow> startWorker_loop script enc ps t')"

definition startWorker ::
  "(string \<Rightarrow> string option) \<Rightarrow> (MarshalCall \<Rightarrow> string option) \<Rightarrow> Page list \<Rightarrow> Trace \<Rightarrow> error + Trace" where
  "startWorker script enc ps t =
     (case startWorker_loop script enc ps t of
        Inl e \<Rightarrow> Inl e
      | Inr t' \<Rightarrow> Inr (t'\<lparr>Log := Log t' @ [ExitingWorker]\<rparr>))"

section \<open>The reader (xml.go, startReader)\<close>

text \<open>
  The decoder of \<open>encoding/xml\<close> is library code. The input is the sequence of tokens
  that \<open>decoder.Token()\<close> returns at the head of the loop, up to the first \<open>nil\<close> (the end
  of the input or a syntax error). For a start element the token carries its local name
  and the value \<open>decoder.DecodeElement(&p, &se)\<close> leaves in a fresh \<open>p\<close>; the tokens
  that \<open>DecodeElement\<close> consumes are not in the sequence.
\<close>

datatype Token = StartElement string Page | OtherToken

text \<open>
  The package variable \<open>seen\<close> (xml.go:49). No statement of the program assigns to it
  or appends to it.
\<close>

definition seen :: "string list" where
  "seen = []"

text \<open>
  What the reader has done so far: the pages sent on \<open>InPage\<close> and its log lines.
\<close>

record ReaderTrace =
  InPage :: "Page list"
  ReaderLog :: "LogEvent list"

fun startReader_loop :: "Token list \<Rightarrow> ReaderTrace \<Rightarrow> ReaderTrace" where
  "startReader_loop [] r = r"
| "startReader_loop (OtherToken # ts) r = startReader_loop ts r"
| "startReader_loop (StartElement name p # ts) r =
     (if name = ''page'' then
        (if find_slice seen (Title p)
         then startReader_loop ts (r\<lparr>ReaderLog := ReaderLog r @ [DuplicateTitle (Title p)]\<rparr>)
         else startReader_loop ts (r\<lparr>InPage := InPage r @ [p]\<rparr>))
      else startReader_loop ts r)"

text \<open>\<open>dump\<close> is \<open>None\<close> when \<open>os.Open(w.InputFile)\<close> returns an error.\<close>

definition startReader :: "Token list option \<Rightarrow> error + ReaderTrace" where
  "startReader dump =
     (case dump of
        None \<Rightarrow> Inl PanicOpen
      | Some ts \<Rightarrow>
          (let r = startReader_loop ts \<lparr>InPage = [], ReaderLog = []\<rparr>
           in Inr (r\<lparr>ReaderLog := ReaderLog r @ [ReaderDone]\<rparr>)))"

section \<open>The writer (xml.go, startWriter)\<close>

text \<open>
  The header written in place of the one in the input (xml.go, \<open>head\<close>), byte for byte;
  \<open>dq\<close> is the double quote.
\<close>

definition dq :: char where
  "dq = CHR 0x22"

definition head :: string where
  "head =
     ''\<newline>'' @
     ''<mediawiki xmlns='' @ dq # ''http://www.mediawiki.org/xml/export-0.10/'' @ dq # '' xmlns:xsi='' @ dq # ''http://www.w3.org/2001/XMLSchema-instance'' @ dq # '' xsi:schemaLocation='' @ dq # ''http://www.mediawiki.org/xml/export-0.10/ http://www.mediawiki.org/xml/export-0.10.xsd'' @ dq # '' version='' @ dq # ''0.10'' @ dq # '' xml:lang='' @ dq # ''en'' @ dq # ''>\<newline>'' @
     ''    <sitename>Wikipedia</sitename>\<newline>'' @
     ''    <dbname>enwiki</dbname>\<newline>'' @
     ''    <base>https://en.wikipedia.org/wiki/Main_Page</base>\<newline>'' @
     ''    <generator>MediaWiki 1.35.0-wmf.31</generator>\<newline>'' @
     ''    <case>first-letter</case>\<newline>'' @
     ''    <namespaces>\<newline>'' @
     ''      <namespace key='' @ dq # ''-2'' @ dq # '' case='' @ dq # ''first-letter'' @ dq # ''>Media</namespace>\<newline>'' @
     ''      <namespace key='' @ dq # ''-1'' @ dq # '' case='' @ dq # ''first-letter'' @ dq # ''>Special</namespace>\<newline>'' @
     ''      <namespace key='' @ dq # ''0'' @ dq # '' case='' @ dq # ''first-letter'' @ dq # '' />\<newline>'' @
     ''      <namespace key='' @ dq # ''1'' @ dq # '' case='' @ dq # ''first-letter'' @ dq # ''>Talk</namespace>\<newline>'' @
     ''      <namespace key='' @ dq # ''2'' @ dq # '' case='' @ dq # ''first-letter'' @ dq # ''>User</namespace>\<newline>'' @
     ''      <namespace key='' @ dq # ''3'' @ dq # '' case='' @ dq # ''first-letter'' @ dq # ''>User talk</namespace>\<newline>'' @
     ''      <namespace key='' @ dq # ''4'' @ dq # '' case='' @ dq # ''first-letter'' @ dq # ''>Wikipedia</namespace>\<newline>'' @
     ''      <namespace key='' @ dq # ''5'' @ dq # '' case='' @ dq # ''first-letter'' @ dq # ''>Wikipedia talk</namespace>\<newline>'' @
     ''      <namespace key='' @ dq # ''6'' @ dq # '' case='' @ dq # ''first-letter'' @ dq # ''>File</namespace>\<newline>'' @
     ''      <namespace key='' @ dq # ''7'' @ dq # '' case='' @ dq # ''first-letter'' @ dq # ''>File talk</namespace>\<newline>'' @
     ''      <namespace key='' @ dq # ''8'' @ dq # '' case='' @ dq # ''first-letter'' @ dq # ''>MediaWiki</namespace>\<newline>'' @
     ''      <namespace key='' @ dq # ''9'' @ dq # '' case='' @ dq # ''first-letter'' @ dq # ''>MediaWiki talk</namespace>\<newline>'' @
     ''      <namespace key='' @ dq # ''10'' @ dq # '' case='' @ dq # ''first-letter'' @ dq # ''>Template</namespace>\<newline>'' @
     ''      <namespace key='' @ dq # ''11'' @ dq # '' case='' @ dq # ''first-letter'' @ dq # ''>Template talk</namespace>\<newline>'' @
     ''      <namespace key='' @ dq # ''12'' @ dq # '' case='' @ dq # ''first-letter'' @ dq # ''>Help</namespace>\<newline>'' @
     ''      <namespace key='' @ dq # ''13'' @ dq # '' case='' @ dq # ''first-letter'' @ dq # ''>Help talk</namespace>\<newline>'' @
     ''      <namespace key='' @ dq # ''14'' @ dq # '' case='' @ dq # ''first-letter'' @ dq # ''>Category</namespace>\<newline>'' @
     ''      <namespace key='' @ dq # ''15'' @ dq # '' case='' @ dq # ''first-letter'' @ dq # ''>Category talk</namespace>\<newline>'' @
     ''      <namespace key='' @ dq # ''100'' @ dq # '' case='' @ dq # ''first-letter'' @ dq # ''>Portal</namespace>\<newline>'' @
     ''      <namespace key='' @ dq # ''101'' @ dq # '' case='' @ dq # ''first-letter'' @ dq # ''>Portal talk</namespace>\<newline>'' @
     ''      <namespace key='' @ dq # ''108'' @ dq # '' case='' @ dq # ''first-letter'' @ dq # ''>Book</namespace>\<newline>'' @
     ''      <namespace key='' @ dq # ''109'' @ dq # '' case='' @ dq # ''first-letter'' @ dq # ''>Book talk</namespace>\<newline>'' @
     ''      <namespace key='' @ dq # ''118'' @ dq # '' case='' @ dq # ''first-letter'' @ dq # ''>Draft</namespace>\<newline>'' @
     ''      <namespace key='' @ dq # ''119'' @ dq # '' case='' @ dq # ''first-letter'' @ dq # ''>Draft talk</namespace>\<newline>'' @
     ''      <namespace key='' @ dq # ''446'' @ dq # '' case='' @ dq # ''first-letter'' @ dq # ''>Education Program</namespace>\<newline>'' @
     ''      <namespace key='' @ dq # ''447'' @ dq # '' case='' @ dq # ''first-letter'' @ dq # ''>Education Program talk</namespace>\<newline>'' @
     ''      <namespace key='' @ dq # ''710'' @ dq # '' case='' @ dq # ''first-letter'' @ dq # ''>TimedText</namespace>\<newline>'' @
     ''      <namespace key='' @ dq # ''711'' @ dq # '' case='' @ dq # ''first-letter'' @ dq # ''>TimedText talk</namespace>\<newline>'' @
     ''      <namespace key='' @ dq # ''828'' @ dq # '' case='' @ dq # ''first-letter'' @ dq # ''>Module</namespace>\<newline>'' @
     ''      <namespace key='' @ dq # ''829'' @ dq # '' case='' @ dq # ''first-letter'' @ dq # ''>Module talk</namespace>\<newline>'' @
     ''      <namespace key='' @ dq # ''2300'' @ dq # '' case='' @ dq # ''first-letter'' @ dq # ''>Gadget</namespace>\<newline>'' @
     ''      <namespace key='' @ dq # ''2301'' @ dq # '' case='' @ dq # ''first-letter'' @ dq # ''>Gadget talk</namespace>\<newline>'' @
     ''      <namespace key='' @ dq # ''2302'' @ dq # '' case='' @ dq # ''case-sensitive'' @ dq # ''>Gadget definition</namespace>\<newline>'' @
     ''      <namespace key='' @ dq # ''2303'' @ dq # '' case='' @ dq # ''case-sensitive'' @ dq # ''>Gadget definition talk</namespace>\<newline>'' @
     ''    </namespaces>\<newline>'' @
     ''  </siteinfo>\<newline>'' @
     '' ''"

text \<open>
  The output file: its contents and the number of calls of \<open>Write\<close> so far. Whether
  a call fails is up to the file system: \<open>werr k\<close> says that call number \<open>k\<close>
  (counted from 0) returns an error.
\<close>

record File =
  content :: string
  writes :: nat

definition Write :: "(nat \<Rightarrow> bool) \<Rightarrow> File \<Rightarrow> string \<Rightarrow> File option" where
  "Write werr f b =
     (if werr (writes f) then None
      else Some (f\<lparr>content := content f @ b, writes := Suc (writes f)\<rparr>))"

text \<open>
  \<open>startWriter\<close> in four parts: \<open>os.Create\<close> and the write of the header, the body of the
  loop for one item received from \<open>OutText\<close>, the loop over the items in the order of
  arrival, and the write of the trailer. \<open>created\<close> is false when
  \<open>os.Create(w.OutputFile)\<close> returns an error; otherwise the file is empty.
\<close>

definition startWriter_open :: "bool \<Rightarrow> (nat \<Rightarrow> bool) \<Rightarrow> error + File" where
  "startWriter_open created werr =
     (if \<not> created then Inl PanicCreate
      else case Write werr \<lparr>content = [], writes = 0\<rparr> head of
             None \<Rightarrow> Inl PanicWrite
           | Some f \<Rightarrow> Inr f)"

definition startWriter_body :: "(nat \<Rightarrow> bool) \<Rightarrow> string \<Rightarrow> File \<Rightarrow> error + File" where
  "startWriter_body werr text f =
     (let text = ReplaceAll text ''&#xA;'' [] in
      case Write werr f ''\<newline>'' of
        None \<Rightarrow> Inl PanicWrite
      | Some f \<Rightarrow>
          (case Write werr f text of
             None \<Rightarrow> Inl PanicWrite
           | Some f \<Rightarrow> Inr f))"

fun startWriter_loop :: "(nat \<Rightarrow> bool) \<Rightarrow> string list \<Rightarrow> File \<Rightarrow> error + File" where
  "startWriter_loop werr [] f = Inr f"
| "startWriter_loop werr (text # rest) f =
     (case startWriter_body werr text f of
        Inl e \<Rightarrow> Inl e
      | Inr f \<Rightarrow> startWriter_loop werr rest f)"

definition startWriter_close :: "(nat \<Rightarrow> bool) \<Rightarrow> File \<Rightarrow> error + File" where
  "startWriter_close werr f =
     (case Write werr f ''</page>'' of
        None \<Rightarrow> Inl PanicWrite
      | Some f \<Rightarrow> Inr f)"

text \<open>
  \<open>startWriter\<close> on the items it receives before \<open>OutText\<close> is closed; the result is the
  file when the writer has reached its last line.
\<close>

definition startWriter :: "bool \<Rightarrow> (nat \<Rightarrow> bool) \<Rightarrow> string list \<Rightarrow> error + File" where
  "startWriter created werr items =
     (case startWriter_open created werr of
        Inl e \<Rightarrow> Inl e
      | Inr f \<Rightarrow>
          (case startWriter_loop werr items f of
             Inl e \<Rightarrow> Inl e
           | Inr f \<Rightarrow> startWriter_close werr f))"

section \<open>The coordinator (xml.go, Start) and the goroutines it starts\<close>

text \<open>
  What a run is started with and what its environment answers: the number of workers,
  the tokens of the input file (\<open>None\<close> when it cannot be opened), whether the output
  file can be created and which of its writes fail, the parse script and the
  serialisers.
\<close>

record World =
  workerCount :: nat
  InputFile :: "Token list option"
  OutputFile_created :: bool
  OutputFile_werr :: "nat \<Rightarrow> bool"
  ParseScript :: "string \<Rightarrow> string option"
  xml_enc :: "MarshalCall \<Rightarrow> string option"

text \<open>
  \<open>Start\<close> runs the reader in the main goroutine, next to the goroutines of the workers
  and of the writer. The model is a state machine: every goroutine has a program counter
  at the statements where it meets the others, and a schedule, a list of events, says
  which goroutine takes the next step. An event that names a goroutine which is blocked
  or has ended is not enabled.

  The main goroutine: the loop of \<open>Start\<close> with its variable \<open>i\<close>, \<open>go w.startWriter()\<close>,
  \<open>os.Open\<close> in \<open>startReader\<close>, the sends on \<open>InPage\<close> with the pages still to send and
  \<open>close(w.InPage)\<close> behind them, \<open>w.wg.Wait()\<close>, \<open>close(w.OutText)\<close>, the return of
  \<open>Start\<close>, and the end of the process, which ends every goroutine.
\<close>

datatype main_pc =
    MainSpawn nat
  | MainGoWriter
  | MainOpen
  | MainSend "Page list"
  | MainWait
  | MainCloseOutText
  | MainReturn
  | MainExit

text \<open>
  A worker: created by \<open>go w.startWorker()\<close> and not yet run (its first statement is
  \<open>w.wg.Add(1)\<close>), at the head of its loop \<open>for p := range w.InPage\<close>, at
  \<open>w.OutText <- output\<close> with the item to send, and returned, after the deferred
  \<open>w.wg.Done()\<close>.
\<close>

datatype worker_pc = WorkerAdd | WorkerRange | WorkerSend string | WorkerDone

text \<open>
  The writer: before \<open>os.Create\<close>; at the head of its loop \<open>for text := range w.OutText\<close>,
  with the file as written so far; in the body of the loop, with the item received;
  and returned.
\<close>

datatype writer_pc =
    WriterCreate
  | WriterRange File
  | WriterWrite File string
  | WriterDone File

text \<open>
  \<open>wg\<close> is the counter of the wait group. Both channels are unbuffered, so a channel
  holds no item: a send and its receive are one step. \<open>received\<close> lists the items the
  writer has received.
\<close>

record Pipeline =
  main :: main_pc
  workers :: "worker_pc list"
  writer :: "writer_pc option"
  wg :: int
  InPage_closed :: bool
  OutText_closed :: bool
  received :: "string list"
  panicked :: "error option"

definition Start_state :: Pipeline where
  "Start_state =
     \<lparr>main = MainSpawn 1, workers = [], writer = None, wg = 0,
      InPage_closed = False, OutText_closed = False, received = [], panicked = None\<rparr>"

text \<open>
  \<open>Handoff i\<close> is the send of the next page by the reader together with its receipt by
  worker \<open>i\<close>, and what the worker does with the page up to its send on \<open>OutText\<close>.
\<close>

datatype event = MainStep | Handoff nat | WorkerStep nat | WriterStep

definition main_step :: "World \<Rightarrow> Pipeline \<Rightarrow> Pipeline option" where
  "main_step w s =
     (case main s of
        MainSpawn i \<Rightarrow>
          (if i \<le> workerCount w
           then Some (s\<lparr>workers := workers s @ [WorkerAdd], main := MainSpawn (i + 1)\<rparr>)
           else Some (s\<lparr>main := MainGoWriter\<rparr>))
      | MainGoWriter \<Rightarrow> Some (s\<lparr>writer := Some WriterCreate, main := MainOpen\<rparr>)
      | MainOpen \<Rightarrow>
          (case startReader (InputFile w) of
             Inl e \<Rightarrow> Some (s\<lparr>panicked := Some e\<rparr>)
           | Inr r \<Rightarrow> Some (s\<lparr>main := MainSend (InPage r)\<rparr>))
      | MainSend [] \<Rightarrow> Some (s\<lparr>InPage_closed := True, main := MainWait\<rparr>)
      | MainSend (p # ps) \<Rightarrow> None
      | MainWait \<Rightarrow> (if wg s = 0 then Some (s\<lparr>main := MainCloseOutText\<rparr>) else None)
      | MainCloseOutText \<Rightarrow> Some (s\<lparr>OutText_closed := True, main := MainReturn\<rparr>)
      | MainReturn \<Rightarrow> Some (s\<lparr>main := MainExit\<rparr>)
      | MainExit \<Rightarrow> None)"

definition handoff :: "World \<Rightarrow> nat \<Rightarrow> Pipeline \<Rightarrow> Pipeline option" where
  "handoff w i s =
     (case main s of
        MainSend (p # ps) \<Rightarrow>
          (if i < length (workers s) \<and> workers s ! i = WorkerRange then
             (case startWorker_body (ParseScript w) (xml_enc w) p no_trace of
                Inl e \<Rightarrow> Some (s\<lparr>main := MainSend ps, panicked := Some e\<rparr>)
              | Inr t \<Rightarrow>
                  (case OutText t of
                     [] \<Rightarrow> Some (s\<lparr>main := MainSend ps\<rparr>)
                   | output # _ \<Rightarrow>
                       Some (s\<lparr>main := MainSend ps,
                               workers := (workers s)[i := WorkerSend output]\<rparr>)))
           else None)
      | _ \<Rightarrow> None)"

definition worker_step :: "nat \<Rightarrow> Pipeline \<Rightarrow> Pipeline option" where
  "worker_step i s =
     (if i < length (workers s) then
        (case workers s ! i of
           WorkerAdd \<Rightarrow> Some (s\<lparr>wg := wg s + 1, workers := (workers s)[i := WorkerRange]\<rparr>)
         | WorkerRange \<Rightarrow>
             (if InPage_closed s then
                (if wg s - 1 < 0 then Some (s\<lparr>panicked := Some PanicNegativeCounter\<rparr>)
                 else Some (s\<lparr>wg := wg s - 1, workers := (workers s)[i := WorkerDone]\<rparr>))
              else None)
         | WorkerSend output \<Rightarrow>
             (if OutText_closed s then Some (s\<lparr>panicked := Some PanicSendOnClosed\<rparr>)
              else case writer s of
                Some (WriterRange f) \<Rightarrow>
                  Some (s\<lparr>received := received s @ [output],
                          writer := Some (WriterWrite f output),
                          workers := (workers s)[i := WorkerRange]\<rparr>)
              | _ \<Rightarrow> None)
         | WorkerDone \<Rightarrow> None)
      else None)"

definition writer_step :: "World \<Rightarrow> Pipeline \<Rightarrow> Pipeline option" where
  "writer_step w s =
     (case writer s of
        Some WriterCreate \<Rightarrow>
          (case startWriter_open (OutputFile_created w) (OutputFile_werr w) of
             Inl e \<Rightarrow> Some (s\<lparr>panicked := Some e\<rparr>)
           | Inr f \<Rightarrow> Some (s\<lparr>writer := Some (WriterRange f)\<rparr>))
      | Some (WriterWrite f text) \<Rightarrow>
          (case startWriter_body (OutputFile_werr w) text f of
             Inl e \<Rightarrow> Some (s\<lparr>panicked := Some e\<rparr>)
           | Inr f' \<Rightarrow> Some (s\<lparr>writer := Some (WriterRange f')\<rparr>))
      | Some (WriterRange f) \<Rightarrow>
          (if OutText_closed s then
             (case startWriter_close (OutputFile_werr w) f of
                Inl e \<Rightarrow> Some (s\<lparr>panicked := Some e\<rparr>)
              | Inr f' \<Rightarrow> Some (s\<lparr>writer := Some (WriterDone f')\<rparr>))
           else None)
      | _ \<Rightarrow> None)"

text \<open>
  One event, and a schedule; \<open>None\<close> when an event of the schedule is not enabled. No
  goroutine takes a step after a panic or after the process has ended.
\<close>

definition exec :: "World \<Rightarrow> Pipeline \<Rightarrow> event \<Rightarrow> Pipeline option" where
  "exec w s ev =
     (if panicked s = None \<and> main s \<noteq> MainExit then
        (case ev of
           MainStep \<Rightarrow> main_step w s
         | Handoff i \<Rightarrow> handoff w i s
         | WorkerStep i \<Rightarrow> worker_step i s
         | WriterStep \<Rightarrow> writer_step w s)
      else None)"

fun run :: "World \<Rightarrow> event list \<Rightarrow> Pipeline \<Rightarrow> Pipeline option" where
  "run w [] s = Some s"
| "run w (ev # evs) s =
     (case exec w s ev of
        None \<Rightarrow> None
      | Some s' \<Rightarrow> run w evs s')"

text \<open>
  The invariant of the protocol: the counter of the wait group is the number of workers
  between \<open>w.wg.Add(1)\<close> and \<open>w.wg.Done()\<close>; \<open>InPage\<close> is closed exactly when the main
  goroutine is past \<open>close(w.InPage)\<close>; once the main goroutine is past \<open>w.wg.Wait()\<close> no
  worker has an item to send; \<open>OutText\<close> is closed only past \<open>w.wg.Wait()\<close>; and the
  runtime has raised neither of its two panics. The last two parts say that the writer
  does not exist before \<open>go w.startWriter()\<close>, and relate its file to \<open>startWriter\<close> on the
  items received.
\<close>

fun counted :: "worker_pc \<Rightarrow> bool" where
  "counted WorkerAdd = False"
| "counted WorkerRange = True"
| "counted (WorkerSend output) = True"
| "counted WorkerDone = False"

fun sending :: "worker_pc \<Rightarrow> bool" where
  "sending (WorkerSend output) = True"
| "sending w = False"

fun after_close_InPage :: "main_pc \<Rightarrow> bool" where
  "after_close_InPage MainWait = True"
| "after_close_InPage MainCloseOutText = True"
| "after_close_InPage MainReturn = True"
| "after_close_InPage MainExit = True"
| "after_close_InPage pc = False"

fun after_Wait :: "main_pc \<Rightarrow> bool" where
  "after_Wait MainCloseOutText = True"
| "after_Wait MainReturn = True"
| "after_Wait MainExit = True"
| "after_Wait pc = False"

fun before_go_writer :: "main_pc \<Rightarrow> bool" where
  "before_go_writer (MainSpawn i) = True"
| "before_go_writer MainGoWriter = True"
| "before_go_writer pc = False"

definition writer_progress :: "World \<Rightarrow> string list \<Rightarrow> error + File" where
  "writer_progress w items =
     (case startWriter_open (OutputFile_created w) (OutputFile_werr w) of
        Inl e \<Rightarrow> Inl e
      | Inr f \<Rightarrow> startWriter_loop (OutputFile_werr w) items f)"

fun writer_invariant :: "World \<Rightarrow> string list \<Rightarrow> writer_pc option \<Rightarrow> bool" where
  "writer_invariant w items None = (items = [])"
| "writer_invariant w items (Some WriterCreate) = (items = [])"
| "writer_invariant w items (Some (WriterRange f)) = (writer_progress w items = Inr f)"
| "writer_invariant w items (Some (WriterWrite f text)) =
     (items \<noteq> [] \<and> last items = text \<and> writer_progress w (butlast items) = Inr f)"
| "writer_invariant w items (Some (WriterDone f)) =
     (startWriter (OutputFile_created w) (OutputFile_werr w) items = Inr f)"

definition protocol_invariant :: "World \<Rightarrow> Pipeline \<Rightarrow> bool" where
  "protocol_invariant w s =
     (wg s = int (length (filter counted (workers s))) \<and>
      InPage_closed s = after_close_InPage (main s) \<and>
      (after_Wait (main s) \<longrightarrow> (\<forall>x \<in> set (workers s). \<not> sending x)) \<and>
      (OutText_closed s \<longrightarrow> after_Wait (main s)) \<and>
      panicked s \<noteq> Some PanicSendOnClosed \<and> panicked s \<noteq> Some PanicNegativeCounter \<and>
      (before_go_writer (main s) \<longrightarrow> writer s = None) \<and>
      writer_invariant w (received s) (writer s))"

section \<open>Notions used to state the properties\<close>

text \<open>
  The two substitutions the worker applies before the parse script runs, and the two it
  applies to the script's output, each in the order of the source.
\<close>

abbreviation escape :: "string \<Rightarrow> string" where
  "escape b \<equiv> ReplaceAll (ReplaceAll b ''[['' SPEC_START) '']]'' SPEC_END"

abbreviation unescape :: "string \<Rightarrow> string" where
  "unescape b \<equiv> ReplaceAll (ReplaceAll b SPEC_START ''[['') SPEC_END '']]''"

text \<open>
  A text cut at its link delimiters: the text before the first delimiter, then every
  delimiter with the text that follows it. \<open>link_split\<close> reads the delimiters of a body
  from left to right, as the substitutions do; \<open>link_join a b\<close> writes the text back with
  \<open>a\<close> for every opening and \<open>b\<close> for every closing delimiter.
\<close>

datatype delim = LinkOpen | LinkClose

type_synonym segments = "string \<times> (delim \<times> string) list"

fun delim_text :: "string \<Rightarrow> string \<Rightarrow> delim \<Rightarrow> string" where
  "delim_text a b LinkOpen = a"
| "delim_text a b LinkClose = b"

definition link_join :: "string \<Rightarrow> string \<Rightarrow> segments \<Rightarrow> string" where
  "link_join a b sg = fst sg @ concat (map (\<lambda>(d, t). delim_text a b d @ t) (snd sg))"

fun link_split :: "string \<Rightarrow> segments" where
  "link_split [] = ([], [])"
| "link_split (c # cs) =
     (if HasPrefix (c # cs) ''[[''
      then ([], (LinkOpen, fst (link_split (drop 1 cs))) # snd (link_split (drop 1 cs)))
      else if HasPrefix (c # cs) '']]''
      then ([], (LinkClose, fst (link_split (drop 1 cs))) # snd (link_split (drop 1 cs)))
      else (c # fst (link_split cs), snd (link_split cs)))"

text \<open>The delimiters of a cut text, in order, and a function applied to its texts.\<close>

definition delims :: "segments \<Rightarrow> delim list" where
  "delims sg = map fst (snd sg)"

definition map_texts :: "(string \<Rightarrow> string) \<Rightarrow> segments \<Rightarrow> segments" where
  "map_texts f sg = (f (fst sg), map (\<lambda>(d, t). (d, f t)) (snd sg))"

text \<open>A block none of whose suffixes can begin an occurrence of \<open>old\<close>.\<close>

fun no_start :: "string \<Rightarrow> string \<Rightarrow> bool" where
  "no_start old [] = True"
| "no_start old (c # m) =
     (\<not> prefix old (c # m) \<and> \<not> prefix (c # m) old \<and> no_start old m)"

text \<open>Two pages that differ in nothing but the body.\<close>

definition same_metadata :: "Page \<Rightarrow> Page \<Rightarrow> bool" where
  "same_metadata p q =
     (Text q = Text p \<and> Title q = Title p \<and> Ns q = Ns p \<and> ID q = ID p \<and>
      Redirect q = Redirect p \<and>
      Chardata (Revision q) = Chardata (Revision p) \<and>
      Revision_ID (Revision q) = Revision_ID (Revision p) \<and>
      Parentid (Revision q) = Parentid (Revision p) \<and>
      Timestamp (Revision q) = Timestamp (Revision p) \<and>
      Contributor (Revision q) = Contributor (Revision p) \<and>
      Comment (Revision q) = Comment (Revision p) \<and>
      Model (Revision q) = Model (Revision p) \<and>
      Format (Revision q) = Format (Revision p) \<and>
      Bytes (Revision_Text (Revision q)) = Bytes (Revision_Text (Revision p)) \<and>
      Space (Revision_Text (Revision q)) = Space (Revision_Text (Revision p)) \<and>
      Sha1 (Revision q) = Sha1 (Revision p))"

text \<open>What the loop of the writer appends to the file for the items it receives.\<close>

definition written_items :: "string list \<Rightarrow> string" where
  "written_items items =
     concat (map (\<lambda>item. ''\<newline>'' @ ReplaceAll item ''&#xA;'' []) items)"

text \<open>
  The items a worker is to send for the pages it receives, in the order of the pages: for
  a redirect the output of \<open>Marshal\<close> on the page; for any other page on which the parse
  script succeeds the output of \<open>MarshalIndent\<close>, with the prefix of two and the indent of
  four spaces, on the page with the unescaped output of the script as its body; nothing
  for a page on which the script fails. A serialiser that fails ends the run.
\<close>

fun emitted_items ::
  "(string \<Rightarrow> string option) \<Rightarrow> (MarshalCall \<Rightarrow> string option) \<Rightarrow> Page list \<Rightarrow> error + string list" where
  "emitted_items script enc [] = Inr []"
| "emitted_items script enc (q # qs) =
     (if HasPrefix (body q) ''#REDIRECT'' then
        (case enc (Marshal q) of
           None \<Rightarrow> Inl PanicMarshal
         | Some item \<Rightarrow> map_sum id ((#) item) (emitted_items script enc qs))
      else
        (case script (escape (body q)) of
           None \<Rightarrow> emitted_items script enc qs
         | Some clean \<Rightarrow>
             (case enc (MarshalIndent (set_body (unescape clean) q) ''  '' ''    '') of
                None \<Rightarrow> Inl PanicMarshal
              | Some item \<Rightarrow> map_sum id ((#) item) (emitted_items script enc qs))))"

section \<open>Example inputs\<close>

text \<open>
  A page with the given title and body, and stand-ins for the parse script and the
  serialisers, for the examples below.
\<close>

definition example_page :: "string \<Rightarrow> string \<Rightarrow> Page" where
  "example_page title b =
     \<lparr>Text = [], Title = title, Ns = ''0'', ID = ''1'',
      Redirect = \<lparr>Redirect_Text = [], Redirect_Title = []\<rparr>,
      Revision = \<lparr>Chardata = [], Revision_ID = ''7'', Parentid = ''6'',
        Timestamp = ''2020-01-01T00:00:00Z'',
        Contributor = \<lparr>Contributor_Text = [], Username = ''u'', Contributor_ID = ''3''\<rparr>,
        Comment = ''c'', Model = ''wikitext'', Format = ''text/x-wiki'',
        Revision_Text = \<lparr>Text_Text = b, Bytes = ''9'', Space = ''preserve''\<rparr>,
        Sha1 = ''abc''\<rparr>\<rparr>"

definition example_enc :: "MarshalCall \<Rightarrow> string option" where
  "example_enc c =
     (case c of
        Marshal p \<Rightarrow> Some (Title p @ '':'' @ body p)
      | MarshalIndent p pre ind \<Rightarrow> Some (pre @ Title p @ '':'' @ body p))"

definition failing_enc :: "MarshalCall \<Rightarrow> string option" where
  "failing_enc c = None"

definition failing_script :: "string \<Rightarrow> string option" where
  "failing_script s = None"

definition identity_script :: "string \<Rightarrow> string option" where
  "identity_script s = Some s"

text \<open>
  The script of Scenario C, and one that fails on the body of the page \<open>Broken\<close> of
  Scenario D only.
\<close>

definition scenario_C_script :: "string \<Rightarrow> string option" where
  "scenario_C_script s =
     (if s = ''Hello <SPEC_START>World<SPEC_END>.'' then Some ''Hi <SPEC_START>World<SPEC_END>.''
      else None)"

definition scenario_D_script :: "string \<Rightarrow> string option" where
  "scenario_D_script s = (if s = ''bad'' then None else Some s)"

definition no_write_error :: "nat \<Rightarrow> bool" where
  "no_write_error k = False"

text \<open>The pages of the scenarios.\<close>

definition dog_animal :: Page where
  "dog_animal = example_page ''Dog'' ''Animal.''"

definition dog_other :: Page where
  "dog_other = example_page ''Dog'' ''Other.''"

definition cat_redirect :: Page where
  "cat_redirect = example_page ''Cat alias'' ''#REDIRECT [[Cat]]''"

definition hello_world :: Page where
  "hello_world = example_page ''Greeting'' ''Hello [[World]].''"

definition broken :: Page where
  "broken = example_page ''Broken'' ''bad''"

definition sentinel_note :: Page where
  "sentinel_note = example_page ''Note'' ''see <SPEC_START>''"

text \<open>
  A run on one page with two workers, and a schedule in which the first worker takes the
  page and the second worker has not run its first statement when \<open>Start\<close> closes
  \<open>OutText\<close>.
\<close>

definition two_workers :: World where
  "two_workers =
     \<lparr>workerCount = 2,
      InputFile = Some [StartElement ''page'' dog_animal],
      OutputFile_created = True, OutputFile_werr = no_write_error,
      ParseScript = identity_script, xml_enc = example_enc\<rparr>"

definition late_worker_schedule :: "event list" where
  "late_worker_schedule =
     [MainStep, MainStep, MainStep, MainStep, MainStep,
      WorkerStep 0, WriterStep, Handoff 0, MainStep, WorkerStep 0, WriterStep, WorkerStep 0,
      MainStep, MainStep]"

text \<open>A file system on which exactly the write with the given number fails.\<close>

definition write_fails_at :: "nat \<Rightarrow> nat \<Rightarrow> bool" where
  "write_fails_at n k = (k = n)"

text \<open>
  Scenario D as a run: three pages, the parse script failing on the second, and a schedule
  in which the first worker takes all three pages and the writer writes every item it
  receives. The first eleven events of the schedule lead up to the send of the second
  page.
\<close>

definition scenario_D_world :: World where
  "scenario_D_world =
     \<lparr>workerCount = 2,
      InputFile = Some [StartElement ''page'' dog_animal, StartElement ''page'' broken,
        StartElement ''page'' dog_other],
      OutputFile_created = True, OutputFile_werr = no_write_error,
      ParseScript = scenario_D_script, xml_enc = example_enc\<rparr>"

definition scenario_D_schedule :: "event list" where
  "scenario_D_schedule =
     [MainStep, MainStep, MainStep, MainStep, MainStep,
      WorkerStep 0, WorkerStep 1, WriterStep, Handoff 0, WorkerStep 0, WriterStep,
      Handoff 0, Handoff 0, WorkerStep 0, WriterStep,
      MainStep, WorkerStep 0, WorkerStep 1, MainStep, MainStep, WriterStep]"

section \<open>Facts about ReplaceAll\<close>

text \<open>
  \<open>HasPrefix\<close> is the prefix order of lists, and \<open>ReplaceAll\<close> works on the text before and
  behind a block independently when no occurrence of \<open>old\<close> can overlap the block.
\<close>

lemma HasPrefix_prefix: "HasPrefix s pre = prefix pre s"
  unfolding HasPrefix_def
  by (metis prefix_length_le take_is_prefix append_eq_conv_conj prefix_def)

lemma ReplaceAll_prefix_keep:
  assumes "set x \<inter> set new = {}" and "new \<noteq> []"
  shows "prefix x (ReplaceAll s old new) \<Longrightarrow> prefix x s"
  using assms
proof (induction s old new arbitrary: x rule: ReplaceAll.induct)
  case (1 old new)
  then show ?case by simp
next
  case (2 c cs old new)
  show ?case
  proof (cases x)
    case Nil
    then show ?thesis by simp
  next
    case (Cons a x')
    show ?thesis
    proof (cases "HasPrefix (c # cs) old")
      case True
      with 2 Cons have "prefix (a # x') (new @ ReplaceAll (drop (length old - 1) cs) old new)"
        by simp
      with \<open>new \<noteq> []\<close> have "a = hd new"
        by (cases new) auto
      with \<open>new \<noteq> []\<close> 2 Cons show ?thesis by auto
    next
      case False
      with 2 Cons show ?thesis by auto
    qed
  qed
qed

lemma ReplaceAll_middle:
  assumes m: "m \<noteq> []" "hd m \<notin> set (tl old)"
    and base: "ReplaceAll (m @ v) old new = X @ ReplaceAll v old new"
  shows "ReplaceAll (u @ m @ v) old new = ReplaceAll u old new @ X @ ReplaceAll v old new"
  using m base
proof (induction u old new rule: ReplaceAll.induct)
  case (1 old new)
  then show ?case by simp
next
  case (2 c cs old new)
  show ?case
  proof (cases "HasPrefix (c # cs) old")
    case True
    then have len: "length old - 1 \<le> length cs"
      by (auto simp add: HasPrefix_def)
    from True have "HasPrefix (c # cs @ m @ v) old"
      using prefix_prefix [of old "c # cs" "m @ v"] by (simp add: HasPrefix_prefix)
    moreover have "drop (length old - 1) (cs @ m @ v) = drop (length old - 1) cs @ m @ v"
      using len by simp
    ultimately show ?thesis
      using True 2 by simp
  next
    case False
    have "\<not> HasPrefix (c # cs @ m @ v) old"
    proof
      assume h: "HasPrefix (c # cs @ m @ v) old"
      show False
      proof (cases "length old \<le> Suc (length cs)")
        case True
        then have "take (length old) ((c # cs) @ m @ v) = take (length old) (c # cs)"
          by (simp del: append_Cons)
        with h True have "HasPrefix (c # cs) old"
          by (simp add: HasPrefix_def)
        with False show False by simp
      next
        case False
        then have lt: "Suc (length cs) < length old" by simp
        from h have "old = take (length old) (c # cs @ m @ v)"
          by (simp add: HasPrefix_def)
        then have "old ! Suc (length cs) = (c # cs @ m @ v) ! Suc (length cs)"
          using lt by (metis nth_take)
        also have "\<dots> = hd m"
          using \<open>m \<noteq> []\<close> by (simp add: nth_append hd_conv_nth)
        finally have "hd m = tl old ! length cs"
          using lt by (cases old) auto
        moreover have "length cs < length (tl old)" using lt by simp
        ultimately have "hd m \<in> set (tl old)" by (metis nth_mem)
        with 2 show False by simp
      qed
    qed
    with False 2 show ?thesis by simp
  qed
qed

lemma ReplaceAll_no_start:
  "no_start old m \<Longrightarrow> ReplaceAll (m @ v) old new = m @ ReplaceAll v old new"
proof (induction m)
  case Nil
  then show ?case by simp
next
  case (Cons c m)
  then have "\<not> prefix old (c # m @ v)"
    using prefix_append [of old "c # m" v] by (auto simp: prefix_def)
  with Cons show ?case by (simp add: HasPrefix_prefix)
qed

lemma ReplaceAll_self:
  "old \<noteq> [] \<Longrightarrow> ReplaceAll (old @ v) old new = new @ ReplaceAll v old new"
  by (cases old) (simp_all add: HasPrefix_prefix)

lemma ReplaceAll_at_occurrence:
  assumes "old \<noteq> []" "hd old \<notin> set (tl old)"
  shows "ReplaceAll (u @ old @ v) old new = ReplaceAll u old new @ new @ ReplaceAll v old new"
  using assms by (simp add: ReplaceAll_middle ReplaceAll_self)

lemma ReplaceAll_at_inert:
  assumes "m \<noteq> []" "hd m \<notin> set (tl old)" "no_start old m"
  shows "ReplaceAll (u @ m @ v) old new = ReplaceAll u old new @ m @ ReplaceAll v old new"
  using assms by (simp add: ReplaceAll_middle ReplaceAll_no_start)

lemma unescape_SPEC_START:
  "unescape (u @ SPEC_START @ v) = unescape u @ ''[['' @ unescape v"
proof -
  have "ReplaceAll (u @ SPEC_START @ v) SPEC_START ''[[''
      = ReplaceAll u SPEC_START ''[['' @ ''[['' @ ReplaceAll v SPEC_START ''[[''"
    by (rule ReplaceAll_at_occurrence) (simp_all add: SPEC_START_def)
  moreover have "ReplaceAll (x @ ''[['' @ y) SPEC_END '']]''
      = ReplaceAll x SPEC_END '']]'' @ ''[['' @ ReplaceAll y SPEC_END '']]''" for x y
    by (rule ReplaceAll_at_inert) (simp_all add: SPEC_END_def)
  ultimately show ?thesis by simp
qed

lemma unescape_SPEC_END:
  "unescape (u @ SPEC_END @ v) = unescape u @ '']]'' @ unescape v"
proof -
  have "ReplaceAll (u @ SPEC_END @ v) SPEC_START ''[[''
      = ReplaceAll u SPEC_START ''[['' @ SPEC_END @ ReplaceAll v SPEC_START ''[[''"
    by (rule ReplaceAll_at_inert) (simp_all add: SPEC_START_def SPEC_END_def)
  moreover have "ReplaceAll (x @ SPEC_END @ y) SPEC_END '']]''
      = ReplaceAll x SPEC_END '']]'' @ '']]'' @ ReplaceAll y SPEC_END '']]''" for x y
    by (rule ReplaceAll_at_occurrence) (simp_all add: SPEC_END_def)
  ultimately show ?thesis by simp
qed

lemma link_join_Nil [simp]: "link_join a b (t, []) = t"
  by (simp add: link_join_def)

lemma link_join_Cons [simp]:
  "link_join a b (t0, (d, t) # ds) = t0 @ delim_text a b d @ link_join a b (t, ds)"
  by (simp add: link_join_def)

lemma link_join_split: "link_join ''[['' '']]'' (link_split b) = b"
proof (induction b rule: link_split.induct)
  case 1
  then show ?case by simp
next
  case (2 c cs)
  show ?case
  proof (cases "HasPrefix (c # cs) ''[[''")
    case True
    then obtain cs' where "c = CHR ''[''" "cs = CHR ''['' # cs'"
      by (cases cs) (auto simp: HasPrefix_def)
    with True 2 show ?thesis by (simp add: link_join_def)
  next
    case False
    note nopen = this
    show ?thesis
    proof (cases "HasPrefix (c # cs) '']]''")
      case True
      then obtain cs' where "c = CHR '']''" "cs = CHR '']'' # cs'"
        by (cases cs) (auto simp: HasPrefix_def)
      with True nopen 2 show ?thesis by (simp add: link_join_def HasPrefix_def)
    next
      case False
      with nopen 2 show ?thesis by (simp add: link_join_def)
    qed
  qed
qed

lemma escape_split: "escape b = link_join SPEC_START SPEC_END (link_split b)"
proof (induction b rule: link_split.induct)
  case 1
  then show ?case by simp
next
  case (2 c cs)
  show ?case
  proof (cases "HasPrefix (c # cs) ''[[''")
    case True
    then obtain cs' where cs: "c = CHR ''[''" "cs = CHR ''['' # cs'"
      by (cases cs) (auto simp: HasPrefix_def)
    have "ReplaceAll (SPEC_START @ y) '']]'' SPEC_END = SPEC_START @ ReplaceAll y '']]'' SPEC_END" for y
      by (rule ReplaceAll_no_start) (simp add: SPEC_START_def)
    with True 2 cs show ?thesis by (simp add: link_join_def)
  next
    case False
    note nopen = this
    show ?thesis
    proof (cases "HasPrefix (c # cs) '']]''")
      case True
      then obtain cs' where cs: "c = CHR '']''" "cs = CHR '']'' # cs'"
        by (cases cs) (auto simp: HasPrefix_def)
      have "ReplaceAll (c # cs) ''[['' SPEC_START = '']]'' @ ReplaceAll cs' ''[['' SPEC_START"
        using cs by (simp add: HasPrefix_def)
      moreover have "ReplaceAll ('']]'' @ y) '']]'' SPEC_END = SPEC_END @ ReplaceAll y '']]'' SPEC_END" for y
        by (rule ReplaceAll_self) simp
      ultimately show ?thesis
        using True nopen 2 cs by (simp add: link_join_def del: ReplaceAll.simps)
    next
      case False
      have "\<not> HasPrefix (c # ReplaceAll cs ''[['' SPEC_START) '']]''"
      proof
        assume h: "HasPrefix (c # ReplaceAll cs ''[['' SPEC_START) '']]''"
        then have c: "c = CHR '']''" and "prefix '']'' (ReplaceAll cs ''[['' SPEC_START)"
          by (auto simp: HasPrefix_prefix)
        then have "prefix '']'' cs"
          using ReplaceAll_prefix_keep [of "'']''" SPEC_START cs "''[[''"]
          by (simp add: SPEC_START_def)
        with c have "HasPrefix (c # cs) '']]''"
          by (simp add: HasPrefix_prefix)
        with False show False by simp
      qed
      with False nopen 2 show ?thesis by (simp add: link_join_def)
    qed
  qed
qed

lemma unescape_join:
  "unescape (link_join SPEC_START SPEC_END (t0, ds))
     = link_join ''[['' '']]'' (unescape t0, map (\<lambda>(d, t). (d, unescape t)) ds)"
proof (induction ds arbitrary: t0)
  case Nil
  then show ?case by simp
next
  case (Cons a ds)
  obtain d t where a: "a = (d, t)" by (cases a)
  show ?case
  proof (cases d)
    case LinkOpen
    with a Cons [of t] show ?thesis
      by (simp add: unescape_SPEC_START del: ReplaceAll.simps)
  next
    case LinkClose
    with a Cons [of t] show ?thesis
      by (simp add: unescape_SPEC_END del: ReplaceAll.simps)
  qed
qed

lemma prefix_ReplaceAll_disjoint:
  assumes "set new \<inter> set q = {}" "q \<noteq> []"
  shows "sublist q (new @ y) \<Longrightarrow> sublist q y"
  using assms
proof (induction new)
  case Nil
  then show ?case by simp
next
  case (Cons a new)
  from Cons.prems have "\<not> prefix q (a # new @ y)"
    by (cases q) auto
  with Cons show ?case
    by (auto simp: sublist_Cons_right)
qed

lemma sublist_of_drop: "sublist q (drop n s) \<Longrightarrow> sublist q s"
proof -
  assume "sublist q (drop n s)"
  then obtain ps ss where "drop n s = ps @ q @ ss" by (auto simp: sublist_def)
  then have "s = (take n s @ ps) @ q @ ss"
    by (metis append_take_drop_id append_assoc)
  then show ?thesis unfolding sublist_def by blast
qed

lemma ReplaceAll_sublist_keep:
  assumes d: "set new \<inter> set q = {}" and n: "new \<noteq> []" and q: "q \<noteq> []"
  shows "sublist q (ReplaceAll s old new) \<Longrightarrow> sublist q s"
  using assms
proof (induction s old new rule: ReplaceAll.induct)
  case (1 old new)
  then show ?case by simp
next
  case (2 c cs old new)
  have d': "set q \<inter> set new = {}" using "2.prems" by blast
  show ?case
  proof (cases "HasPrefix (c # cs) old")
    case True
    with "2.prems" have "sublist q (new @ ReplaceAll (drop (length old - 1) cs) old new)" by simp
    then have "sublist q (ReplaceAll (drop (length old - 1) cs) old new)"
      using "2.prems" prefix_ReplaceAll_disjoint [of new q] by blast
    with True "2.IH"(1) "2.prems" have "sublist q (drop (length old - 1) cs)" by simp
    then have "sublist q cs" by (rule sublist_of_drop)
    then show ?thesis by (simp add: sublist_Cons_right)
  next
    case False
    with "2.prems" have "prefix q (c # ReplaceAll cs old new) \<or> sublist q (ReplaceAll cs old new)"
      by (simp add: sublist_Cons_right)
    then show ?thesis
    proof
      assume "prefix q (c # ReplaceAll cs old new)"
      with False have "prefix q (ReplaceAll (c # cs) old new)" by simp
      then have "prefix q (c # cs)"
        using d' "2.prems" ReplaceAll_prefix_keep [of q new "c # cs" old] by blast
      then show ?thesis by (simp add: sublist_Cons_right)
    next
      assume "sublist q (ReplaceAll cs old new)"
      with False "2.IH"(2) "2.prems" show ?thesis by (simp add: sublist_Cons_right)
    qed
  qed
qed

lemma ReplaceAll_removes_old:
  assumes "set new \<inter> set old = {}" "new \<noteq> []" "old \<noteq> []"
  shows "\<not> sublist old (ReplaceAll s old new)"
  using assms
proof (induction s old new rule: ReplaceAll.induct)
  case (1 old new)
  then show ?case by simp
next
  case (2 c cs old new)
  have d': "set old \<inter> set new = {}" using "2.prems" by blast
  show ?case
  proof (cases "HasPrefix (c # cs) old")
    case True
    show ?thesis
    proof
      assume "sublist old (ReplaceAll (c # cs) old new)"
      with True have "sublist old (new @ ReplaceAll (drop (length old - 1) cs) old new)" by simp
      then have "sublist old (ReplaceAll (drop (length old - 1) cs) old new)"
        using "2.prems" prefix_ReplaceAll_disjoint [of new old] by blast
      with True "2.IH"(1) "2.prems" show False by simp
    qed
  next
    case False
    show ?thesis
    proof
      assume "sublist old (ReplaceAll (c # cs) old new)"
      with False have "prefix old (ReplaceAll (c # cs) old new) \<or> sublist old (ReplaceAll cs old new)"
        by (simp add: sublist_Cons_right)
      then show False
      proof
        assume h: "prefix old (ReplaceAll (c # cs) old new)"
        have "prefix old (c # cs)"
          using d' "2.prems" h ReplaceAll_prefix_keep [of old new "c # cs" old] by blast
        with False show False by (simp add: HasPrefix_prefix)
      next
        assume "sublist old (ReplaceAll cs old new)"
        with False "2.IH"(2) "2.prems" show False by simp
      qed
    qed
  qed
qed

lemma unescape_no_sentinel:
  "\<not> sublist SPEC_START (unescape x)" "\<not> sublist SPEC_END (unescape x)"
proof -
  have "\<not> sublist SPEC_START (ReplaceAll x SPEC_START ''[['')"
    by (rule ReplaceAll_removes_old) (simp_all add: SPEC_START_def)
  moreover have "sublist SPEC_START (unescape x) \<Longrightarrow> sublist SPEC_START (ReplaceAll x SPEC_START ''[['')"
    using ReplaceAll_sublist_keep [of "'']]''" SPEC_START "ReplaceAll x SPEC_START ''[[''" SPEC_END]
    by (simp add: SPEC_START_def)
  ultimately show "\<not> sublist SPEC_START (unescape x)" by blast
  show "\<not> sublist SPEC_END (unescape x)"
    by (rule ReplaceAll_removes_old) (simp_all add: SPEC_END_def)
qed

section \<open>Facts about the worker\<close>

lemma body_set_body [simp]: "body (set_body b p) = b"
  by (simp add: body_def set_body_def)

lemma set_body_set_body [simp]: "set_body b (set_body b' p) = set_body b p"
  by (simp add: set_body_def)

lemma Title_set_body [simp]: "Title (set_body b p) = Title p"
  by (simp add: set_body_def)

lemma same_metadata_set_body: "same_metadata p (set_body b p)"
  by (simp add: same_metadata_def set_body_def)

lemma same_metadata_refl: "same_metadata p p"
  by (simp add: same_metadata_def)

lemma startWorker_body_redirect:
  "HasPrefix (body p) ''#REDIRECT'' \<Longrightarrow>
   startWorker_body script enc p t =
     (case enc (Marshal p) of
        None \<Rightarrow> Inl PanicMarshal
      | Some output \<Rightarrow>
          Inr (t\<lparr>Log := Log t @ [ProcessingTitle (Title p)],
                 Marshalled := Marshalled t @ [Marshal p],
                 OutText := OutText t @ [output]\<rparr>))"
  by (simp add: startWorker_body_def Let_def split: option.splits)

lemma startWorker_body_failure:
  "\<not> HasPrefix (body p) ''#REDIRECT'' \<Longrightarrow> script (escape (body p)) = None \<Longrightarrow>
   startWorker_body script enc p t =
     Inr (t\<lparr>Log := Log t @ [ProcessingTitle (Title p), ErrorParsingTitle (Title p)],
            Invocations := Invocations t @ [escape (body p)]\<rparr>)"
  by (simp add: startWorker_body_def Let_def)

lemma startWorker_body_success:
  "\<not> HasPrefix (body p) ''#REDIRECT'' \<Longrightarrow> script (escape (body p)) = Some clean \<Longrightarrow>
   startWorker_body script enc p t =
     (case enc (MarshalIndent (set_body (unescape clean) p) ''  '' ''    '') of
        None \<Rightarrow> Inl PanicMarshal
      | Some output \<Rightarrow>
          Inr (t\<lparr>Log := Log t @ [ProcessingTitle (Title p)],
                 Invocations := Invocations t @ [escape (body p)],
                 Marshalled := Marshalled t @ [MarshalIndent (set_body (unescape clean) p) ''  '' ''    ''],
                 OutText := OutText t @ [output]\<rparr>))"
  by (simp add: startWorker_body_def Let_def split: option.splits)

lemma startWorker_body_append:
  "startWorker_body script enc p t =
     map_sum id (append_trace t) (startWorker_body script enc p no_trace)"
proof (cases "HasPrefix (body p) ''#REDIRECT''")
  case True
  show ?thesis
    unfolding startWorker_body_redirect [OF True]
    by (simp add: append_trace_def no_trace_def split: option.splits)
next
  case False
  show ?thesis
  proof (cases "script (escape (body p))")
    case None
    show ?thesis
      unfolding startWorker_body_failure [where script = script, OF False None]
      by (simp add: append_trace_def no_trace_def)
  next
    case (Some clean)
    show ?thesis
      unfolding startWorker_body_success [where script = script, OF False Some]
      by (simp add: append_trace_def no_trace_def split: option.splits)
  qed
qed

lemma startWorker_loop_append:
  "startWorker_loop script enc (ps1 @ ps2) t =
     (case startWorker_loop script enc ps1 t of
        Inl e \<Rightarrow> Inl e
      | Inr t' \<Rightarrow> startWorker_loop script enc ps2 t')"
  by (induction ps1 arbitrary: t) (simp_all split: sum.splits)

lemma startWorker_loop_OutText_cong:
  "OutText t1 = OutText t2 \<Longrightarrow>
   map_sum id OutText (startWorker_loop script enc ps t1) =
   map_sum id OutText (startWorker_loop script enc ps t2)"
proof (induction ps arbitrary: t1 t2)
  case Nil
  then show ?case by simp
next
  case (Cons p ps)
  have b1: "startWorker_body script enc p t1 =
      map_sum id (append_trace t1) (startWorker_body script enc p no_trace)"
    by (rule startWorker_body_append)
  have b2: "startWorker_body script enc p t2 =
      map_sum id (append_trace t2) (startWorker_body script enc p no_trace)"
    by (rule startWorker_body_append)
  show ?case
  proof (cases "startWorker_body script enc p no_trace")
    case (Inl e)
    then show ?thesis by (simp add: b1 b2)
  next
    case (Inr d)
    have "OutText (append_trace t1 d) = OutText (append_trace t2 d)"
      using Cons.prems by (simp add: append_trace_def)
    then have "map_sum id OutText (startWorker_loop script enc ps (append_trace t1 d)) =
               map_sum id OutText (startWorker_loop script enc ps (append_trace t2 d))"
      by (rule Cons.IH)
    then show ?thesis by (simp add: b1 b2 Inr id_def)
  qed
qed

lemma startWorker_OutText:
  "map_sum id OutText (startWorker script enc ps t) =
   map_sum id OutText (startWorker_loop script enc ps t)"
  by (simp add: startWorker_def split: sum.splits)

text \<open>
  The items a worker has sent when it ends are the items it had sent before, followed by
  \<open>emitted_items\<close> of the pages it received; it panics where \<open>emitted_items\<close> does.
\<close>

lemma startWorker_loop_emitted_items:
  "map_sum id OutText (startWorker_loop script enc ps t) =
   map_sum id ((@) (OutText t)) (emitted_items script enc ps)"
proof (induction ps arbitrary: t)
  case Nil
  then show ?case by simp
next
  case (Cons p ps)
  show ?case
  proof (cases "HasPrefix (body p) ''#REDIRECT''")
    case True
    note r = startWorker_body_redirect [OF True, where script = script and enc = enc and t = t]
    show ?thesis
    proof (cases "enc (Marshal p)")
      case None
      with True r show ?thesis by simp
    next
      case (Some item)
      with True r Cons.IH show ?thesis
        by (cases "emitted_items script enc ps") simp_all
    qed
  next
    case False
    show ?thesis
    proof (cases "script (escape (body p))")
      case None
      with False Cons.IH
        startWorker_body_failure [where script = script and enc = enc and t = t, OF False None]
      show ?thesis by simp
    next
      case (Some clean)
      note r = startWorker_body_success [where script = script and enc = enc and t = t, OF False Some]
      show ?thesis
      proof (cases "enc (MarshalIndent (set_body (unescape clean) p) ''  '' ''    '')")
        case None
        with False Some r show ?thesis by simp
      next
        case (Some item)
        with False \<open>script (escape (body p)) = Some clean\<close> r Cons.IH show ?thesis
          by (cases "emitted_items script enc ps") simp_all
      qed
    qed
  qed
qed

lemma startWorker_emitted_items:
  "map_sum id OutText (startWorker script enc ps t) =
   map_sum id ((@) (OutText t)) (emitted_items script enc ps)"
  by (simp only: startWorker_OutText startWorker_loop_emitted_items)

section \<open>Facts about the writer and the reader\<close>

lemma startWriter_loop_result:
  "startWriter_loop werr items f =
     (if \<exists>k. writes f \<le> k \<and> k < writes f + 2 * length items \<and> werr k
      then Inl PanicWrite
      else Inr \<lparr>content = content f @ written_items items,
                writes = writes f + 2 * length items\<rparr>)"
proof (induction items arbitrary: f)
  case Nil
  then show ?case by (simp add: written_items_def)
next
  case (Cons item rest)
  let ?w = "writes f"
  let ?text = "ReplaceAll item ''&#xA;'' []"
  show ?case
  proof (cases "werr ?w")
    case True
    then have "\<exists>k. ?w \<le> k \<and> k < ?w + 2 * length (item # rest) \<and> werr k"
      by (intro exI [of _ ?w]) simp
    with True show ?thesis by (simp add: Write_def startWriter_body_def Let_def)
  next
    case False
    note w0 = this
    show ?thesis
    proof (cases "werr (Suc ?w)")
      case True
      then have "\<exists>k. ?w \<le> k \<and> k < ?w + 2 * length (item # rest) \<and> werr k"
        by (intro exI [of _ "Suc ?w"]) simp
      with True w0 show ?thesis by (simp add: Write_def startWriter_body_def Let_def)
    next
      case False
      let ?f = "f\<lparr>content := content f @ ''\<newline>'' @ ?text, writes := Suc (Suc ?w)\<rparr>"
      have step: "startWriter_loop werr (item # rest) f = startWriter_loop werr rest ?f"
        using w0 False by (simp add: Write_def startWriter_body_def Let_def)
      have ex: "(\<exists>k. ?w \<le> k \<and> k < ?w + 2 * length (item # rest) \<and> werr k) =
                (\<exists>k. writes ?f \<le> k \<and> k < writes ?f + 2 * length rest \<and> werr k)"
      proof
        assume "\<exists>k. ?w \<le> k \<and> k < ?w + 2 * length (item # rest) \<and> werr k"
        then obtain k where k: "?w \<le> k" "k < ?w + 2 * length (item # rest)" "werr k" by blast
        have "k \<noteq> ?w" "k \<noteq> Suc ?w" using w0 False k(3) by metis+
        with k have "writes ?f \<le> k \<and> k < writes ?f + 2 * length rest \<and> werr k" by simp
        then show "\<exists>k. writes ?f \<le> k \<and> k < writes ?f + 2 * length rest \<and> werr k" by blast
      next
        assume "\<exists>k. writes ?f \<le> k \<and> k < writes ?f + 2 * length rest \<and> werr k"
        then obtain k where "writes ?f \<le> k" "k < writes ?f + 2 * length rest" "werr k" by blast
        then have "?w \<le> k \<and> k < ?w + 2 * length (item # rest) \<and> werr k" by simp
        then show "\<exists>k. ?w \<le> k \<and> k < ?w + 2 * length (item # rest) \<and> werr k" by blast
      qed
      show ?thesis
      proof (cases "\<exists>k. writes ?f \<le> k \<and> k < writes ?f + 2 * length rest \<and> werr k")
        case True
        then have "startWriter_loop werr rest ?f = Inl PanicWrite"
          by (simp only: Cons.IH [of ?f] if_True)
        with True show ?thesis by (simp only: step ex if_True)
      next
        case False
        then have "startWriter_loop werr rest ?f =
            Inr \<lparr>content = content ?f @ written_items rest, writes = writes ?f + 2 * length rest\<rparr>"
          by (simp only: Cons.IH [of ?f] if_False)
        moreover have "content ?f @ written_items rest = content f @ written_items (item # rest)"
          by (simp add: written_items_def)
        moreover have "writes ?f + 2 * length rest = writes f + 2 * length (item # rest)"
          by simp
        ultimately show ?thesis using False by (simp only: step ex if_False)
      qed
    qed
  qed
qed

lemma startWriter_result:
  "startWriter True werr items =
     (if \<exists>k<2 * length items + 2. werr k then Inl PanicWrite
      else Inr \<lparr>content = head @ written_items items @ ''</page>'',
                writes = 2 * length items + 2\<rparr>)"
proof (cases "werr 0")
  case True
  then have "\<exists>k<2 * length items + 2. werr k" by (intro exI [of _ 0]) simp
  with True show ?thesis by (simp add: startWriter_def startWriter_open_def Write_def)
next
  case False
  note w0 = this
  let ?f = "\<lparr>content = head, writes = Suc 0\<rparr>"
  have f: "startWriter_open True werr = Inr ?f"
    using w0 by (simp add: startWriter_open_def Write_def)
  show ?thesis
  proof (cases "\<exists>k. Suc 0 \<le> k \<and> k < Suc 0 + 2 * length items \<and> werr k")
    case True
    then obtain k where "Suc 0 \<le> k" "k < Suc 0 + 2 * length items" "werr k" by blast
    then have "k < 2 * length items + 2 \<and> werr k" by simp
    then have "\<exists>k<2 * length items + 2. werr k" by blast
    with True show ?thesis
      by (simp add: startWriter_def f startWriter_loop_result)
  next
    case False
    note wl = this
    let ?g = "\<lparr>content = head @ written_items items, writes = Suc 0 + 2 * length items\<rparr>"
    have l: "startWriter_loop werr items ?f = Inr ?g"
      using wl by (simp add: startWriter_loop_result)
    show ?thesis
    proof (cases "werr (Suc (2 * length items))")
      case True
      then have "\<exists>k<2 * length items + 2. werr k"
        by (intro exI [of _ "Suc (2 * length items)"]) simp
      with True show ?thesis
        by (simp add: startWriter_def f l startWriter_close_def Write_def)
    next
      case False
      have "\<not> (\<exists>k<2 * length items + 2. werr k)"
      proof
        assume "\<exists>k<2 * length items + 2. werr k"
        then obtain k where k: "k < 2 * length items + 2" "werr k" by blast
        have "k \<noteq> 0" "k \<noteq> Suc (2 * length items)" using w0 False k(2) by metis+
        with k have "Suc 0 \<le> k \<and> k < Suc 0 + 2 * length items \<and> werr k" by simp
        with wl show False by blast
      qed
      with False show ?thesis
        by (simp add: startWriter_def f l startWriter_close_def Write_def)
    qed
  qed
qed

lemma strip_at_occurrence:
  "ReplaceAll (u @ ''&#xA;'' @ v) ''&#xA;'' [] = ReplaceAll u ''&#xA;'' [] @ ReplaceAll v ''&#xA;'' []"
  using ReplaceAll_at_occurrence [of "''&#xA;''" u v "[]"] by simp

lemma startReader_loop_forwards_all:
  "InPage (startReader_loop ts r) = InPage r @ concat (map (\<lambda>tok. case tok of StartElement name p \<Rightarrow> if name = ''page'' then [p] else [] | OtherToken \<Rightarrow> []) ts)"
  by (induction ts r rule: startReader_loop.induct) (simp_all add: seen_def)

section \<open>Facts about the substitutions of the worker\<close>

lemma escape_no_delimiter:
  "\<not> sublist ''[['' (escape b)" "\<not> sublist '']]'' (escape b)"
proof -
  have "\<not> sublist ''[['' (ReplaceAll b ''[['' SPEC_START)"
    by (rule ReplaceAll_removes_old) (simp_all add: SPEC_START_def)
  moreover have "sublist ''[['' (escape b) \<Longrightarrow> sublist ''[['' (ReplaceAll b ''[['' SPEC_START)"
    using ReplaceAll_sublist_keep [of SPEC_END "''[[''" "ReplaceAll b ''[['' SPEC_START" "'']]''"]
    by (simp add: SPEC_END_def)
  ultimately show "\<not> sublist ''[['' (escape b)" by blast
  show "\<not> sublist '']]'' (escape b)"
    by (rule ReplaceAll_removes_old) (simp_all add: SPEC_END_def)
qed

lemma escape_SPEC_START:
  "escape (u @ SPEC_START @ v) = escape u @ SPEC_START @ escape v"
proof -
  have "ReplaceAll (x @ SPEC_START @ y) ''[['' SPEC_START
      = ReplaceAll x ''[['' SPEC_START @ SPEC_START @ ReplaceAll y ''[['' SPEC_START" for x y
    by (rule ReplaceAll_at_inert) (simp_all add: SPEC_START_def)
  moreover have "ReplaceAll (x @ SPEC_START @ y) '']]'' SPEC_END
      = ReplaceAll x '']]'' SPEC_END @ SPEC_START @ ReplaceAll y '']]'' SPEC_END" for x y
    by (rule ReplaceAll_at_inert) (simp_all add: SPEC_START_def)
  ultimately show ?thesis by simp
qed

lemma escape_SPEC_END:
  "escape (u @ SPEC_END @ v) = escape u @ SPEC_END @ escape v"
proof -
  have "ReplaceAll (x @ SPEC_END @ y) ''[['' SPEC_START
      = ReplaceAll x ''[['' SPEC_START @ SPEC_END @ ReplaceAll y ''[['' SPEC_START" for x y
    by (rule ReplaceAll_at_inert) (simp_all add: SPEC_END_def)
  moreover have "ReplaceAll (x @ SPEC_END @ y) '']]'' SPEC_END
      = ReplaceAll x '']]'' SPEC_END @ SPEC_END @ ReplaceAll y '']]'' SPEC_END" for x y
    by (rule ReplaceAll_at_inert) (simp_all add: SPEC_END_def)
  ultimately show ?thesis by simp
qed

lemma ReplaceAll_absent:
  "old \<noteq> [] \<Longrightarrow> \<not> sublist old s \<Longrightarrow> ReplaceAll s old new = s"
proof (induction s old new rule: ReplaceAll.induct)
  case (1 old new)
  then show ?case by simp
next
  case (2 c cs old new)
  from "2.prems" have np: "\<not> prefix old (c # cs)" and ns: "\<not> sublist old cs"
    by (auto simp: sublist_Cons_right)
  with 2 show ?case by (simp add: HasPrefix_prefix)
qed

lemma link_split_texts:
  "prefix (fst (link_split b)) b \<and> (\<forall>x \<in> set (snd (link_split b)). sublist (snd x) b)"
proof (induction b rule: link_split.induct)
  case 1
  then show ?case by simp
next
  case (2 c cs)
  show ?case
  proof (cases "HasPrefix (c # cs) ''[['' \<or> HasPrefix (c # cs) '']]''")
    case True
    then obtain d cs' where cs: "cs = d # cs'"
      by (cases cs) (auto simp: HasPrefix_def)
    from True 2 cs have ih: "prefix (fst (link_split cs')) cs'"
      "\<forall>x \<in> set (snd (link_split cs')). sublist (snd x) cs'"
      by auto
    have up: "sublist t (c # d # cs')" if "sublist t cs'" for t
      using that by (simp add: sublist_Cons_right)
    from ih(1) have "sublist (fst (link_split cs')) cs'" by (rule prefix_imp_sublist)
    with ih(2) up True cs show ?thesis by auto
  next
    case False
    with 2 have ih: "prefix (fst (link_split cs)) cs"
      "\<forall>x \<in> set (snd (link_split cs)). sublist (snd x) cs"
      by auto
    with False show ?thesis by (auto simp: sublist_Cons_right)
  qed
qed

lemma unescape_absent:
  assumes "\<not> sublist SPEC_START t" "\<not> sublist SPEC_END t"
  shows "unescape t = t"
  using assms by (simp add: ReplaceAll_absent SPEC_START_def SPEC_END_def)

lemma round_trip_without_sentinel:
  assumes "\<not> sublist SPEC_START b" "\<not> sublist SPEC_END b"
  shows "unescape (escape b) = b"
proof -
  have t: "unescape t = t" if "sublist t b" for t
  proof (rule unescape_absent)
    show "\<not> sublist SPEC_START t"
      using that assms(1) sublist_order.order.trans by blast
    show "\<not> sublist SPEC_END t"
      using that assms(2) sublist_order.order.trans by blast
  qed
  have "unescape (fst (link_split b)) = fst (link_split b)"
    using link_split_texts [of b] by (intro t prefix_imp_sublist) simp
  moreover have "map (\<lambda>(d, x). (d, unescape x)) (snd (link_split b)) = snd (link_split b)"
    using link_split_texts [of b] t by (intro map_idI) (auto simp: case_prod_unfold)
  ultimately have "map_texts unescape (link_split b) = link_split b"
    by (simp add: map_texts_def)
  moreover have "unescape (escape b) = link_join ''[['' '']]'' (map_texts unescape (link_split b))"
    using unescape_join [of "fst (link_split b)" "snd (link_split b)"]
    by (simp add: escape_split [of b] map_texts_def)
  ultimately show ?thesis by (simp add: link_join_split)
qed

section \<open>Facts about the coordinator\<close>

text \<open>
  Every state a schedule reaches from the start satisfies the invariant of the protocol.
  So no schedule makes a worker send on the closed \<open>OutText\<close>, and when the writer has
  returned its file is the result of \<open>startWriter\<close> on the items received.
\<close>

lemma filter_counted_update:
  "i < length ws \<Longrightarrow>
   int (length (filter counted (ws[i := x]))) =
     int (length (filter counted ws)) - (if counted (ws ! i) then 1 else 0)
       + (if counted x then 1 else 0)"
proof (induction ws arbitrary: i)
  case Nil
  then show ?case by simp
next
  case (Cons a ws)
  show ?case
  proof (cases i)
    case 0
    then show ?thesis by simp
  next
    case (Suc n)
    with Cons.prems have "n < length ws" by simp
    from Cons.IH [OF this] Suc show ?thesis by (auto split: if_splits)
  qed
qed

lemma sending_update:
  "\<forall>y \<in> set ws. \<not> sending y \<Longrightarrow> \<not> sending x \<Longrightarrow> \<forall>y \<in> set (ws[i := x]). \<not> sending y"
  using set_update_subset_insert [of ws i x] by auto

lemma counted_positive:
  "i < length ws \<Longrightarrow> counted (ws ! i) \<Longrightarrow> 0 < int (length (filter counted ws))"
  by (metis filter_empty_conv length_greater_0_conv nth_mem of_nat_0_less_iff)

lemma startReader_error: "startReader dump = Inl e \<Longrightarrow> e = PanicOpen"
  by (auto simp: startReader_def Let_def split: option.splits)

lemma startWorker_body_error: "startWorker_body script enc p t = Inl e \<Longrightarrow> e = PanicMarshal"
  by (auto simp: startWorker_body_def Let_def split: option.splits if_splits)

lemma startWriter_open_error:
  "startWriter_open created werr = Inl e \<Longrightarrow> e = PanicCreate \<or> e = PanicWrite"
  by (auto simp: startWriter_open_def split: option.splits if_splits)

lemma startWriter_body_error: "startWriter_body werr item f = Inl e \<Longrightarrow> e = PanicWrite"
  by (auto simp: startWriter_body_def Let_def split: option.splits)

lemma startWriter_close_error: "startWriter_close werr f = Inl e \<Longrightarrow> e = PanicWrite"
  by (auto simp: startWriter_close_def split: option.splits)

lemma startWriter_loop_append:
  "startWriter_loop werr (xs @ ys) f =
     (case startWriter_loop werr xs f of
        Inl e \<Rightarrow> Inl e
      | Inr f' \<Rightarrow> startWriter_loop werr ys f')"
  by (induction xs arbitrary: f) (simp_all split: sum.splits)

lemma writer_progress_snoc:
  "writer_progress w items = Inr f \<Longrightarrow> startWriter_body (OutputFile_werr w) item f = Inr f' \<Longrightarrow>
   writer_progress w (items @ [item]) = Inr f'"
  by (auto simp: writer_progress_def startWriter_loop_append split: sum.splits)

lemma main_step_invariant:
  assumes "protocol_invariant w s" and "main_step w s = Some s'"
  shows "protocol_invariant w s'"
proof (cases "main s")
  case (MainSpawn i)
  with assms show ?thesis
    by (auto simp: protocol_invariant_def main_step_def split: if_splits)
next
  case MainGoWriter
  with assms show ?thesis
    by (auto simp: protocol_invariant_def main_step_def)
next
  case MainOpen
  with assms show ?thesis
    by (auto simp: protocol_invariant_def main_step_def split: sum.splits dest: startReader_error)
next
  case (MainSend ps)
  with assms show ?thesis
    by (cases ps) (auto simp: protocol_invariant_def main_step_def)
next
  case MainWait
  with assms have "wg s = 0" and s': "s' = s\<lparr>main := MainCloseOutText\<rparr>"
    by (auto simp: main_step_def split: if_splits)
  with assms(1) have "filter counted (workers s) = []"
    by (simp add: protocol_invariant_def)
  then have "\<forall>x \<in> set (workers s). \<not> counted x"
    by (simp add: filter_empty_conv)
  then have "\<forall>x \<in> set (workers s). \<not> sending x"
    by (metis counted.simps(3) sending.elims(2))
  with assms(1) MainWait s' show ?thesis
    by (simp add: protocol_invariant_def)
next
  case MainCloseOutText
  with assms show ?thesis
    by (auto simp: protocol_invariant_def main_step_def)
next
  case MainReturn
  with assms show ?thesis
    by (auto simp: protocol_invariant_def main_step_def)
next
  case MainExit
  with assms show ?thesis
    by (auto simp: main_step_def)
qed


lemma handoff_invariant:
  assumes "protocol_invariant w s" and "handoff w i s = Some s'"
  shows "protocol_invariant w s'"
proof -
  from assms(2) obtain p ps where m: "main s = MainSend (p # ps)"
    and i: "i < length (workers s)" "workers s ! i = WorkerRange"
    by (auto simp: handoff_def split: main_pc.splits list.splits if_splits)
  show ?thesis
  proof (cases "startWorker_body (ParseScript w) (xml_enc w) p no_trace")
    case (Inl e)
    then have "e = PanicMarshal" by (rule startWorker_body_error)
    with Inl assms m i show ?thesis
      by (auto simp: handoff_def protocol_invariant_def)
  next
    case (Inr t)
    show ?thesis
    proof (cases "OutText t")
      case Nil
      with Inr assms m i show ?thesis
        by (auto simp: handoff_def protocol_invariant_def)
    next
      case (Cons out rest)
      with Inr assms(2) m i have s': "s' = s\<lparr>main := MainSend ps, workers := (workers s)[i := WorkerSend out]\<rparr>"
        by (simp add: handoff_def)
      have "int (length (filter counted ((workers s)[i := WorkerSend out]))) =
            int (length (filter counted (workers s)))"
        using i by (simp add: filter_counted_update)
      with assms(1) m s' show ?thesis
        by (simp add: protocol_invariant_def)
    qed
  qed
qed

lemma worker_step_invariant:
  assumes "protocol_invariant w s" and "worker_step i s = Some s'"
  shows "protocol_invariant w s'"
proof -
  from assms(2) have i: "i < length (workers s)"
    by (auto simp: worker_step_def split: if_splits)
  show ?thesis
  proof (cases "workers s ! i")
    case WorkerAdd
    with assms(2) i have s': "s' = s\<lparr>wg := wg s + 1, workers := (workers s)[i := WorkerRange]\<rparr>"
      by (simp add: worker_step_def)
    have "int (length (filter counted ((workers s)[i := WorkerRange]))) =
          int (length (filter counted (workers s))) + 1"
      using i WorkerAdd by (simp add: filter_counted_update)
    moreover have "\<forall>x \<in> set ((workers s)[i := WorkerRange]). \<not> sending x"
      if "\<forall>x \<in> set (workers s). \<not> sending x"
      using that by (rule sending_update) simp
    ultimately show ?thesis
      using assms(1) s' by (auto simp: protocol_invariant_def)
  next
    case WorkerRange
    have pos: "0 < int (length (filter counted (workers s)))"
      using i WorkerRange by (intro counted_positive [of i]) simp_all
    with assms WorkerRange i have s': "s' = s\<lparr>wg := wg s - 1, workers := (workers s)[i := WorkerDone]\<rparr>"
      by (auto simp: worker_step_def protocol_invariant_def split: if_splits)
    have "int (length (filter counted ((workers s)[i := WorkerDone]))) =
          int (length (filter counted (workers s))) - 1"
      using i WorkerRange by (simp add: filter_counted_update)
    moreover have "\<forall>x \<in> set ((workers s)[i := WorkerDone]). \<not> sending x"
      if "\<forall>x \<in> set (workers s). \<not> sending x"
      using that by (rule sending_update) simp
    ultimately show ?thesis
      using assms(1) s' by (auto simp: protocol_invariant_def)
  next
    case (WorkerSend out)
    have "sending (workers s ! i)" using WorkerSend by simp
    with i have "\<exists>x \<in> set (workers s). sending x"
      using nth_mem by blast
    with assms(1) have open_: "\<not> OutText_closed s" and nw: "\<not> after_Wait (main s)"
      by (auto simp: protocol_invariant_def)
    with assms(2) WorkerSend i obtain f where f: "writer s = Some (WriterRange f)" and
      s': "s' = s\<lparr>received := received s @ [out], writer := Some (WriterWrite f out),
                   workers := (workers s)[i := WorkerRange]\<rparr>"
      by (auto simp: worker_step_def split: if_splits option.splits writer_pc.splits)
    have "int (length (filter counted ((workers s)[i := WorkerRange]))) =
          int (length (filter counted (workers s)))"
      using i WorkerSend by (simp add: filter_counted_update)
    moreover have "writer_invariant w (received s @ [out]) (Some (WriterWrite f out))"
      using assms(1) f by (simp add: protocol_invariant_def)
    ultimately show ?thesis
      using assms(1) s' open_ nw f by (auto simp: protocol_invariant_def)
  next
    case WorkerDone
    with assms(2) i show ?thesis by (simp add: worker_step_def)
  qed
qed

lemma writer_step_invariant:
  assumes "protocol_invariant w s" and "writer_step w s = Some s'"
  shows "protocol_invariant w s'"
proof (cases "writer s")
  case None
  with assms show ?thesis by (simp add: writer_step_def)
next
  case (Some pc)
  show ?thesis
  proof (cases pc)
    case WriterCreate
    with Some assms show ?thesis
      by (auto simp: writer_step_def protocol_invariant_def writer_progress_def
            split: sum.splits dest: startWriter_open_error)
  next
    case (WriterRange f)
    with Some assms show ?thesis
      by (auto simp: writer_step_def protocol_invariant_def writer_progress_def startWriter_def
            split: sum.splits if_splits dest: startWriter_close_error)
  next
    case (WriterWrite f item)
    with Some assms(1) have r: "received s \<noteq> []" "last (received s) = item"
      "writer_progress w (butlast (received s)) = Inr f"
      by (auto simp: protocol_invariant_def)
    show ?thesis
    proof (cases "startWriter_body (OutputFile_werr w) item f")
      case (Inl e)
      then have "e = PanicWrite" by (rule startWriter_body_error)
      with Inl Some WriterWrite assms show ?thesis
        by (auto simp: writer_step_def protocol_invariant_def)
    next
      case (Inr f')
      from writer_progress_snoc [OF r(3) Inr] r(1,2)
      have "writer_progress w (received s) = Inr f'"
        by (metis append_butlast_last_id)
      with Inr Some WriterWrite assms show ?thesis
        by (auto simp: writer_step_def protocol_invariant_def)
    qed
  next
    case (WriterDone f)
    with Some assms show ?thesis by (simp add: writer_step_def)
  qed
qed

lemma exec_invariant:
  assumes "protocol_invariant w s" and "exec w s ev = Some s'"
  shows "protocol_invariant w s'"
proof (cases ev)
  case MainStep
  with assms show ?thesis
    by (auto simp: exec_def split: if_splits intro: main_step_invariant)
next
  case (Handoff i)
  with assms show ?thesis
    by (auto simp: exec_def split: if_splits intro: handoff_invariant)
next
  case (WorkerStep i)
  with assms show ?thesis
    by (auto simp: exec_def split: if_splits intro: worker_step_invariant)
next
  case WriterStep
  with assms show ?thesis
    by (auto simp: exec_def split: if_splits intro: writer_step_invariant)
qed

lemma run_invariant:
  "protocol_invariant w s \<Longrightarrow> run w evs s = Some s' \<Longrightarrow> protocol_invariant w s'"
proof (induction evs arbitrary: s)
  case Nil
  then show ?case by simp
next
  case (Cons ev evs)
  then show ?case
    by (auto split: option.splits dest: exec_invariant)
qed

lemma Start_state_invariant: "protocol_invariant w Start_state"
  by (simp add: protocol_invariant_def Start_state_def)

lemma no_send_on_closed_channel:
  assumes "run w evs Start_state = Some s"
  shows "panicked s \<noteq> Some PanicSendOnClosed"
    and "OutText_closed s \<Longrightarrow> \<forall>x \<in> set (workers s). \<not> sending x"
  using run_invariant [OF Start_state_invariant assms]
  by (auto simp: protocol_invariant_def)

lemma writer_done_file:
  assumes "run w evs Start_state = Some s" and "writer s = Some (WriterDone f)"
  shows "startWriter (OutputFile_created w) (OutputFile_werr w) (received s) = Inr f"
  using run_invariant [OF Start_state_invariant assms(1)] assms(2)
  by (simp add: protocol_invariant_def)

lemma exec_after_panic: "panicked s \<noteq> None \<Longrightarrow> exec w s ev = None"
  by (auto simp: exec_def)

text \<open>A schedule run in two parts.\<close>

lemma run_append:
  "run w (evs @ evs') s = (case run w evs s of None \<Rightarrow> None | Some s' \<Rightarrow> run w evs' s')"
  by (induction evs arbitrary: s) (simp_all split: option.splits)

lemma run_snoc:
  "run w (evs @ [ev]) s = (case run w evs s of None \<Rightarrow> None | Some s' \<Rightarrow> exec w s' ev)"
  by (simp add: run_append split: option.splits)

section \<open>The claims\<close>

lemmas page_defs =
  body_def set_body_def HasPrefix_def SPEC_START_def SPEC_END_def no_trace_def

lemmas worker_defs = startWorker_def startWorker_body_def Let_def page_defs

lemmas coordinator_defs =
  exec_def main_step_def handoff_def worker_step_def writer_step_def Start_state_def
  startReader_def seen_def startWriter_open_def startWriter_body_def startWriter_close_def
  Write_def

text \<open>
  Claim C1 (no two emitted records share an identifier; a later record with a title already
  seen is dropped before it reaches the workers). The reader looks the title up in \<open>seen\<close>,
  but nothing ever adds a title to \<open>seen\<close>, so the lookup never succeeds. On the input of
  Scenario A, two pages titled Dog, the reader sends both pages to the workers, and a
  worker emits both.
\<close>

theorem duplicate_title_reaches_output:
  "startReader (Some [StartElement ''page'' dog_animal, StartElement ''page'' dog_other]) =
     Inr \<lparr>InPage = [dog_animal, dog_other], ReaderLog = [ReaderDone]\<rparr> \<and>
   Title dog_animal = Title dog_other \<and>
   map_sum id OutText (startWorker identity_script example_enc [dog_animal, dog_other] no_trace) =
     Inr [''  Dog:Animal.'', ''  Dog:Other.'']"
  by (simp add: startReader_def seen_def worker_defs example_page_def dog_animal_def
        dog_other_def example_enc_def identity_script_def)

text \<open>
  Claim C2 (redirect short-circuit). For a page whose body begins with \<open>#REDIRECT\<close>, an
  iteration of the worker does the same whatever the parse script is, and when it ends
  without a panic the list of invocations of the script is unchanged. The one call of a
  serialiser is \<open>Marshal\<close> on the page as it was received, body included, and the item sent
  is what that call returns.
\<close>

theorem redirect_short_circuit:
  assumes "HasPrefix (body p) ''#REDIRECT''"
  shows "startWorker_body script enc p t = startWorker_body script' enc p t \<and>
         (startWorker_body script enc p t = Inr t' \<longrightarrow>
            Invocations t' = Invocations t \<and>
            Marshalled t' = Marshalled t @ [Marshal p] \<and>
            body (marshalled_page (Marshal p)) = body p \<and>
            (\<exists>output. enc (Marshal p) = Some output \<and> OutText t' = OutText t @ [output]))"
proof -
  note r = startWorker_body_redirect [OF assms, where enc = enc and t = t]
  have "startWorker_body script enc p t = startWorker_body script' enc p t"
    by (simp only: r [where script = script] r [where script = script'])
  moreover have "Invocations t' = Invocations t \<and>
            Marshalled t' = Marshalled t @ [Marshal p] \<and>
            body (marshalled_page (Marshal p)) = body p \<and>
            (\<exists>output. enc (Marshal p) = Some output \<and> OutText t' = OutText t @ [output])"
    if "startWorker_body script enc p t = Inr t'"
    using that r [where script = script] by (cases "enc (Marshal p)") auto
  ultimately show ?thesis by blast
qed

theorem redirect_short_circuit_witness:
  "HasPrefix (body cat_redirect) ''#REDIRECT'' \<and>
   startWorker_body failing_script example_enc cat_redirect no_trace =
     Inr \<lparr>OutText = [''Cat alias:#REDIRECT [[Cat]]''], Invocations = [],
          Marshalled = [Marshal cat_redirect], Log = [ProcessingTitle ''Cat alias'']\<rparr> \<and>
   startWorker_body identity_script example_enc cat_redirect no_trace =
     Inr \<lparr>OutText = [''Cat alias:#REDIRECT [[Cat]]''], Invocations = [],
          Marshalled = [Marshal cat_redirect], Log = [ProcessingTitle ''Cat alias'']\<rparr>"
proof -
  let ?t = "\<lparr>OutText = [''Cat alias:#REDIRECT [[Cat]]''], Invocations = [],
          Marshalled = [Marshal cat_redirect], Log = [ProcessingTitle ''Cat alias'']\<rparr>"
  have h1: "HasPrefix (body cat_redirect) ''#REDIRECT''"
    by (simp add: page_defs example_page_def cat_redirect_def example_enc_def failing_script_def
          identity_script_def)
  have h2: "startWorker_body failing_script example_enc cat_redirect no_trace = Inr ?t"
    by (simp add: worker_defs example_page_def cat_redirect_def example_enc_def
          failing_script_def identity_script_def)
  from redirect_short_circuit [where script = failing_script and enc = example_enc
      and p = cat_redirect and t = no_trace and script' = identity_script, OF h1] h2
  have "startWorker_body identity_script example_enc cat_redirect no_trace = Inr ?t" by simp
  with h1 h2 show ?thesis by simp
qed

text \<open>
  Claim C3 (placeholder round trip). Take a page that is no redirect. Its body is its
  texts joined by its link delimiters, and what the worker hands to the parse script is
  the same texts joined by \<open><SPEC_START>\<close> and \<open><SPEC_END>\<close>, with no \<open>[[\<close> and no \<open>]]\<close>
  left in it. If the script answers with texts of its own joined by the same sentinels
  in the same order, and the serialiser succeeds, then the worker invokes the script
  once, on the escaped body, and serialises the page whose body is the script's texts
  joined by \<open>[[\<close> and \<open>]]\<close> in the order of the original body.
\<close>

theorem placeholder_round_trip:
  assumes "\<not> HasPrefix (body p) ''#REDIRECT''"
    and "script (escape (body p)) = Some (link_join SPEC_START SPEC_END sg)"
    and "delims sg = delims (link_split (body p))"
    and "enc (MarshalIndent (set_body (link_join ''[['' '']]'' (map_texts unescape sg)) p) ''  '' ''    '') = Some out"
  shows "body p = link_join ''[['' '']]'' (link_split (body p)) \<and>
         escape (body p) = link_join SPEC_START SPEC_END (link_split (body p)) \<and>
         \<not> sublist ''[['' (escape (body p)) \<and> \<not> sublist '']]'' (escape (body p)) \<and>
         startWorker_body script enc p t =
           Inr (t\<lparr>Log := Log t @ [ProcessingTitle (Title p)],
                  Invocations := Invocations t @ [escape (body p)],
                  Marshalled := Marshalled t @
                    [MarshalIndent (set_body (link_join ''[['' '']]'' (map_texts unescape sg)) p) ''  '' ''    ''],
                  OutText := OutText t @ [out]\<rparr>) \<and>
         delims (map_texts unescape sg) = delims (link_split (body p))"
proof -
  have u: "unescape (link_join SPEC_START SPEC_END sg) = link_join ''[['' '']]'' (map_texts unescape sg)"
    using unescape_join [of "fst sg" "snd sg"] by (simp add: map_texts_def)
  have "startWorker_body script enc p t =
           Inr (t\<lparr>Log := Log t @ [ProcessingTitle (Title p)],
                  Invocations := Invocations t @ [escape (body p)],
                  Marshalled := Marshalled t @
                    [MarshalIndent (set_body (link_join ''[['' '']]'' (map_texts unescape sg)) p) ''  '' ''    ''],
                  OutText := OutText t @ [out]\<rparr>)"
    using startWorker_body_success [where script = script and enc = enc and t = t, OF assms(1) assms(2)]
      assms(4)
    by (simp only: u option.case)
  moreover have "delims (map_texts unescape sg) = delims (link_split (body p))"
    using assms(3) by (simp add: delims_def map_texts_def case_prod_unfold comp_def)
  ultimately show ?thesis
    using link_join_split [of "body p"] escape_split [of "body p"] escape_no_delimiter [of "body p"]
    by simp
qed

theorem placeholder_round_trip_witness:
  "\<not> HasPrefix (body hello_world) ''#REDIRECT'' \<and>
   scenario_C_script (escape (body hello_world)) =
     Some (link_join SPEC_START SPEC_END (''Hi '', [(LinkOpen, ''World''), (LinkClose, ''.'')])) \<and>
   delims (''Hi '', [(LinkOpen, ''World''), (LinkClose, ''.'')]) = delims (link_split (body hello_world)) \<and>
   startWorker_body scenario_C_script example_enc hello_world no_trace =
     Inr \<lparr>OutText = [''  Greeting:Hi [[World]].''],
          Invocations = [''Hello <SPEC_START>World<SPEC_END>.''],
          Marshalled = [MarshalIndent (example_page ''Greeting'' ''Hi [[World]].'') ''  '' ''    ''],
          Log = [ProcessingTitle ''Greeting'']\<rparr>"
proof -
  let ?sg = "(''Hi '', [(LinkOpen, ''World''), (LinkClose, ''.'')])"
  have h1: "\<not> HasPrefix (body hello_world) ''#REDIRECT''"
    by (simp add: page_defs example_page_def hello_world_def example_enc_def scenario_C_script_def)
  have e: "escape (body hello_world) = ''Hello <SPEC_START>World<SPEC_END>.''"
    by (simp add: page_defs example_page_def hello_world_def example_enc_def scenario_C_script_def)
  have h2: "scenario_C_script (escape (body hello_world)) = Some (link_join SPEC_START SPEC_END ?sg)"
    unfolding e by (simp add: scenario_C_script_def link_join_def SPEC_START_def SPEC_END_def)
  have h3: "delims ?sg = delims (link_split (body hello_world))"
    by (simp add: delims_def page_defs example_page_def hello_world_def example_enc_def
          scenario_C_script_def)
  have j: "link_join ''[['' '']]'' (map_texts unescape ?sg) = ''Hi [[World]].''"
    by (simp add: map_texts_def link_join_def page_defs example_page_def hello_world_def
          example_enc_def scenario_C_script_def)
  have h4: "example_enc (MarshalIndent (set_body (link_join ''[['' '']]'' (map_texts unescape ?sg)) hello_world)
              ''  '' ''    '') = Some ''  Greeting:Hi [[World]].''"
    unfolding j by (simp add: page_defs example_page_def hello_world_def example_enc_def
          scenario_C_script_def)
  from placeholder_round_trip [where script = scenario_C_script and enc = example_enc
      and p = hello_world and sg = ?sg and t = no_trace, OF h1 h2 h3 h4]
  have "startWorker_body scenario_C_script example_enc hello_world no_trace =
     Inr (no_trace\<lparr>Log := Log no_trace @ [ProcessingTitle (Title hello_world)],
            Invocations := Invocations no_trace @ [escape (body hello_world)],
            Marshalled := Marshalled no_trace @
              [MarshalIndent (set_body (link_join ''[['' '']]'' (map_texts unescape ?sg)) hello_world) ''  '' ''    ''],
            OutText := OutText no_trace @ [''  Greeting:Hi [[World]].'']\<rparr>)"
    by simp
  then have "startWorker_body scenario_C_script example_enc hello_world no_trace =
     Inr \<lparr>OutText = [''  Greeting:Hi [[World]].''],
          Invocations = [''Hello <SPEC_START>World<SPEC_END>.''],
          Marshalled = [MarshalIndent (example_page ''Greeting'' ''Hi [[World]].'') ''  '' ''    ''],
          Log = [ProcessingTitle ''Greeting'']\<rparr>"
    unfolding j e by (simp add: no_trace_def hello_world_def example_page_def set_body_def)
  with h1 h2 h3 show ?thesis by simp
qed

text \<open>
  Claim C4 (failure isolation). When the parse script fails on a page that is no
  redirect, the iteration ends without a panic: its trace is the trace before it with the
  two log lines and the one invocation of the script added, so no serialiser has been
  called and nothing has been sent. The loop of the worker goes on with the pages behind
  the page, from that trace. A worker that receives the page among others sends exactly
  the items due for the other pages, in their order, and panics only where it does
  without the page. In the pool, the handoff of the page to a worker that is ready to
  receive leaves every goroutine as it was, no panic raised, and the reader at the next
  page.
\<close>

theorem transformer_failure_drops_record:
  assumes "\<not> HasPrefix (body p) ''#REDIRECT''"
    and "script (escape (body p)) = None"
  shows "startWorker_body script enc p t =
           Inr (t\<lparr>Log := Log t @ [ProcessingTitle (Title p), ErrorParsingTitle (Title p)],
                  Invocations := Invocations t @ [escape (body p)]\<rparr>) \<and>
         startWorker_loop script enc (p # ps) t =
           startWorker_loop script enc ps
             (t\<lparr>Log := Log t @ [ProcessingTitle (Title p), ErrorParsingTitle (Title p)],
                Invocations := Invocations t @ [escape (body p)]\<rparr>) \<and>
         map_sum id OutText (startWorker script enc (ps1 @ p # ps2) t) =
           map_sum id ((@) (OutText t)) (emitted_items script enc (ps1 @ ps2)) \<and>
         map_sum id OutText (startWorker script enc (ps1 @ p # ps2) t) =
           map_sum id OutText (startWorker script enc (ps1 @ ps2) t) \<and>
         (panicked s = None \<and> main s = MainSend (p # ps) \<and> i < length (workers s) \<and>
          workers s ! i = WorkerRange \<and> ParseScript w = script \<longrightarrow>
            exec w s (Handoff i) = Some (s\<lparr>main := MainSend ps\<rparr>))"
proof (intro conjI impI)
  let ?t = "t\<lparr>Log := Log t @ [ProcessingTitle (Title p), ErrorParsingTitle (Title p)],
                Invocations := Invocations t @ [escape (body p)]\<rparr>"
  note f = startWorker_body_failure [where script = script, OF assms]
  show b: "startWorker_body script enc p t = Inr ?t"
    by (rule f)
  show "startWorker_loop script enc (p # ps) t = startWorker_loop script enc ps ?t"
    by (simp add: b)
  have e: "emitted_items script enc (ps1 @ p # ps2) = emitted_items script enc (ps1 @ ps2)"
    using assms by (induction ps1) (simp_all split: option.splits)
  show "map_sum id OutText (startWorker script enc (ps1 @ p # ps2) t) =
        map_sum id ((@) (OutText t)) (emitted_items script enc (ps1 @ ps2))"
    by (simp only: startWorker_emitted_items e)
  then show "map_sum id OutText (startWorker script enc (ps1 @ p # ps2) t) =
        map_sum id OutText (startWorker script enc (ps1 @ ps2) t)"
    by (simp only: startWorker_emitted_items)
  show "exec w s (Handoff i) = Some (s\<lparr>main := MainSend ps\<rparr>)"
    if h: "panicked s = None \<and> main s = MainSend (p # ps) \<and> i < length (workers s) \<and>
        workers s ! i = WorkerRange \<and> ParseScript w = script"
  proof -
    have "startWorker_body (ParseScript w) (xml_enc w) p no_trace =
        Inr (no_trace\<lparr>Log := Log no_trace @ [ProcessingTitle (Title p), ErrorParsingTitle (Title p)],
                       Invocations := Invocations no_trace @ [escape (body p)]\<rparr>)"
      using h f [of "xml_enc w" no_trace] by simp
    with h show ?thesis
      by (simp add: exec_def handoff_def no_trace_def)
  qed
qed

theorem transformer_failure_drops_record_witness:
  "\<not> HasPrefix (body broken) ''#REDIRECT'' \<and>
   scenario_D_script (escape (body broken)) = None \<and>
   startWorker_body scenario_D_script example_enc broken no_trace =
     Inr \<lparr>OutText = [], Invocations = [''bad''], Marshalled = [],
          Log = [ProcessingTitle ''Broken'', ErrorParsingTitle ''Broken'']\<rparr> \<and>
   map_sum id OutText
     (startWorker scenario_D_script example_enc ([dog_animal] @ broken # [dog_other]) no_trace) =
     Inr [''  Dog:Animal.'', ''  Dog:Other.''] \<and>
   run scenario_D_world (take 11 scenario_D_schedule) Start_state =
     Some \<lparr>main = MainSend [broken, dog_other], workers = [WorkerRange, WorkerRange],
           writer = Some (WriterRange \<lparr>content = head @ ''\<newline>  Dog:Animal.'', writes = 3\<rparr>),
           wg = 2, InPage_closed = False, OutText_closed = False,
           received = [''  Dog:Animal.''], panicked = None\<rparr> \<and>
   exec scenario_D_world
     \<lparr>main = MainSend [broken, dog_other], workers = [WorkerRange, WorkerRange],
      writer = Some (WriterRange \<lparr>content = head @ ''\<newline>  Dog:Animal.'', writes = 3\<rparr>),
      wg = 2, InPage_closed = False, OutText_closed = False,
      received = [''  Dog:Animal.''], panicked = None\<rparr> (Handoff 0) =
     Some \<lparr>main = MainSend [dog_other], workers = [WorkerRange, WorkerRange],
           writer = Some (WriterRange \<lparr>content = head @ ''\<newline>  Dog:Animal.'', writes = 3\<rparr>),
           wg = 2, InPage_closed = False, OutText_closed = False,
           received = [''  Dog:Animal.''], panicked = None\<rparr> \<and>
   run scenario_D_world scenario_D_schedule Start_state =
     Some \<lparr>main = MainReturn, workers = [WorkerDone, WorkerDone],
           writer = Some (WriterDone
             \<lparr>content = head @ ''\<newline>  Dog:Animal.\<newline>  Dog:Other.</page>'', writes = 6\<rparr>),
           wg = 0, InPage_closed = True, OutText_closed = True,
           received = [''  Dog:Animal.'', ''  Dog:Other.''], panicked = None\<rparr>"
proof -
  let ?s = "\<lparr>main = MainSend [broken, dog_other], workers = [WorkerRange, WorkerRange],
      writer = Some (WriterRange \<lparr>content = head @ ''\<newline>  Dog:Animal.'', writes = 3\<rparr>),
      wg = 2, InPage_closed = False, OutText_closed = False,
      received = [''  Dog:Animal.''], panicked = None\<rparr>"
  have h1: "\<not> HasPrefix (body broken) ''#REDIRECT''"
    by (simp add: page_defs example_page_def broken_def)
  have h2: "scenario_D_script (escape (body broken)) = None"
    by (simp add: page_defs example_page_def broken_def scenario_D_script_def)
  note inst = transformer_failure_drops_record [where script = scenario_D_script
      and enc = example_enc and p = broken and t = no_trace and ps = "[dog_other]"
      and ?ps1.0 = "[dog_animal]" and ?ps2.0 = "[dog_other]" and s = ?s and i = 0
      and w = scenario_D_world, OF h1 h2]
  from inst have b: "startWorker_body scenario_D_script example_enc broken no_trace =
     Inr \<lparr>OutText = [], Invocations = [''bad''], Marshalled = [],
          Log = [ProcessingTitle ''Broken'', ErrorParsingTitle ''Broken'']\<rparr>"
    by (simp add: page_defs example_page_def broken_def)
  have "emitted_items scenario_D_script example_enc ([dog_animal] @ [dog_other]) =
     Inr [''  Dog:Animal.'', ''  Dog:Other.'']"
    by (simp add: page_defs example_page_def dog_animal_def dog_other_def scenario_D_script_def
          example_enc_def)
  with inst have o: "map_sum id OutText
     (startWorker scenario_D_script example_enc ([dog_animal] @ broken # [dog_other]) no_trace) =
     Inr [''  Dog:Animal.'', ''  Dog:Other.'']"
    by (simp add: no_trace_def)
  have "panicked ?s = None \<and> main ?s = MainSend (broken # [dog_other]) \<and>
      0 < length (workers ?s) \<and> workers ?s ! 0 = WorkerRange \<and>
      ParseScript scenario_D_world = scenario_D_script"
    by (simp add: scenario_D_world_def)
  with inst have x: "exec scenario_D_world ?s (Handoff 0) = Some (?s\<lparr>main := MainSend [dog_other]\<rparr>)"
    by blast
  have r1: "run scenario_D_world (take 11 scenario_D_schedule) Start_state = Some ?s"
    by (simp add: coordinator_defs worker_defs scenario_D_world_def scenario_D_schedule_def
          example_page_def dog_animal_def dog_other_def broken_def scenario_D_script_def
          example_enc_def no_write_error_def)
  have r2: "run scenario_D_world scenario_D_schedule Start_state =
     Some \<lparr>main = MainReturn, workers = [WorkerDone, WorkerDone],
           writer = Some (WriterDone
             \<lparr>content = head @ ''\<newline>  Dog:Animal.\<newline>  Dog:Other.</page>'', writes = 6\<rparr>),
           wg = 0, InPage_closed = True, OutText_closed = True,
           received = [''  Dog:Animal.'', ''  Dog:Other.''], panicked = None\<rparr>"
    by (simp add: coordinator_defs worker_defs scenario_D_world_def scenario_D_schedule_def
          example_page_def dog_animal_def dog_other_def broken_def scenario_D_script_def
          example_enc_def no_write_error_def)
  from h1 h2 b o r1 x r2 show ?thesis by simp
qed

text \<open>
  Claim C5 (only the body changes). An iteration of the worker that does not panic either
  serialises and sends nothing, or it calls a serialiser once, on a page that agrees
  with the page received in every field but the body: title, namespace, id, redirect
  block, revision id, parent id, timestamp, contributor block, comment, model, format,
  the attributes of the text element and the checksum \<open>Sha1\<close>. The body of that page is
  the body received or the output of the parse script with the sentinels replaced, the one
  value the assignments of the iteration end with; the checksum is the one received.
\<close>

theorem worker_changes_body_only:
  assumes "startWorker_body script enc p t = Inr t'"
  shows "(Marshalled t' = Marshalled t \<and> OutText t' = OutText t) \<or>
         (\<exists>c output. Marshalled t' = Marshalled t @ [c] \<and> enc c = Some output \<and>
            OutText t' = OutText t @ [output] \<and>
            same_metadata p (marshalled_page c) \<and>
            (body (marshalled_page c) = body p \<or>
             (\<exists>clean. script (escape (body p)) = Some clean \<and>
                body (marshalled_page c) = unescape clean)))"
proof (cases "HasPrefix (body p) ''#REDIRECT''")
  case True
  show ?thesis
  proof (cases "enc (Marshal p)")
    case None
    with assms startWorker_body_redirect [OF True, where script = script and enc = enc and t = t] show ?thesis by simp
  next
    case (Some out)
    with assms startWorker_body_redirect [OF True, where script = script and enc = enc and t = t]
    have "Marshalled t' = Marshalled t @ [Marshal p]" "OutText t' = OutText t @ [out]"
      by auto
    with Some same_metadata_refl [of p] show ?thesis by simp
  qed
next
  case False
  show ?thesis
  proof (cases "script (escape (body p))")
    case None
    with assms startWorker_body_failure [where script = script, OF False None, where enc = enc and t = t] show ?thesis by auto
  next
    case (Some clean)
    let ?q = "set_body (unescape clean) p"
    let ?c = "MarshalIndent ?q ''  '' ''    ''"
    show ?thesis
    proof (cases "enc ?c")
      case None
      with assms startWorker_body_success [where script = script, OF False Some, where enc = enc and t = t] show ?thesis by simp
    next
      case (Some out)
      with assms startWorker_body_success [where script = script, OF False \<open>script (escape (body p)) = Some clean\<close>, where enc = enc and t = t]
      have "Marshalled t' = Marshalled t @ [?c]" "OutText t' = OutText t @ [out]"
        by auto
      moreover have "same_metadata p (marshalled_page ?c)"
        by (simp add: same_metadata_set_body)
      moreover have "body (marshalled_page ?c) = unescape clean" by simp
      ultimately show ?thesis
        using Some \<open>script (escape (body p)) = Some clean\<close> by blast
    qed
  qed
qed

theorem worker_changes_body_only_witness:
  "startWorker_body scenario_C_script example_enc hello_world no_trace =
     Inr \<lparr>OutText = [''  Greeting:Hi [[World]].''],
          Invocations = [''Hello <SPEC_START>World<SPEC_END>.''],
          Marshalled = [MarshalIndent (example_page ''Greeting'' ''Hi [[World]].'') ''  '' ''    ''],
          Log = [ProcessingTitle ''Greeting'']\<rparr> \<and>
   same_metadata hello_world (example_page ''Greeting'' ''Hi [[World]].'') \<and>
   Sha1 (Revision (example_page ''Greeting'' ''Hi [[World]].'')) = Sha1 (Revision hello_world)"
proof -
  let ?t = "\<lparr>OutText = [''  Greeting:Hi [[World]].''],
          Invocations = [''Hello <SPEC_START>World<SPEC_END>.''],
          Marshalled = [MarshalIndent (example_page ''Greeting'' ''Hi [[World]].'') ''  '' ''    ''],
          Log = [ProcessingTitle ''Greeting'']\<rparr>"
  have h: "startWorker_body scenario_C_script example_enc hello_world no_trace = Inr ?t"
    by (simp add: worker_defs example_page_def hello_world_def example_enc_def
          scenario_C_script_def)
  from worker_changes_body_only [where script = scenario_C_script and enc = example_enc
      and p = hello_world and t = no_trace, OF h]
  have "same_metadata hello_world (example_page ''Greeting'' ''Hi [[World]].'')"
    by (simp add: no_trace_def)
  with h show ?thesis by (simp add: same_metadata_def)
qed

text \<open>
  Claim C6 (fatal conditions). The reader panics when the input cannot be opened. The
  writer panics when the output cannot be created, and when any one of its writes fails:
  the header, the newline or the bytes of an item, or the trailer. The worker panics
  when the serialiser fails, on the redirect branch and on the transform branch, and then
  processes no further page. In the running program each of these conditions sets the
  panic of the process at the step at which it occurs: the step of \<open>Start\<close> that opens the
  input, the steps of the writer that create the file and write the header, an item and
  the trailer, and the handoff of a page on which the serialiser fails. No branch of the
  program recovers from a panic: after a step that raises one no goroutine takes another
  step.
\<close>

theorem fatal_conditions_abort:
  "startReader None = Inl PanicOpen \<and>
   startWriter False werr items = Inl PanicCreate \<and>
   ((\<exists>k<2 * length items + 2. werr k) \<longrightarrow> startWriter True werr items = Inl PanicWrite) \<and>
   (HasPrefix (body p1) ''#REDIRECT'' \<and> enc (Marshal p1) = None \<longrightarrow>
      startWorker_body script enc p1 t = Inl PanicMarshal) \<and>
   (\<not> HasPrefix (body p2) ''#REDIRECT'' \<and> script (escape (body p2)) = Some clean \<and>
    enc (MarshalIndent (set_body (unescape clean) p2) ''  '' ''    '') = None \<longrightarrow>
      startWorker_body script enc p2 t = Inl PanicMarshal) \<and>
   (startWorker_body script enc p3 t = Inl e \<longrightarrow>
      startWorker script enc (p3 # ps) t = Inl e) \<and>
   (panicked s \<noteq> None \<longrightarrow> exec w s ev = None) \<and>
   (panicked s = None \<and> main s = MainOpen \<and> InputFile w = None \<longrightarrow>
      exec w s MainStep = Some (s\<lparr>panicked := Some PanicOpen\<rparr>)) \<and>
   (panicked s = None \<and> main s \<noteq> MainExit \<and> writer s = Some WriterCreate \<and>
    \<not> OutputFile_created w \<longrightarrow>
      exec w s WriterStep = Some (s\<lparr>panicked := Some PanicCreate\<rparr>)) \<and>
   (panicked s = None \<and> main s \<noteq> MainExit \<and> writer s = Some WriterCreate \<and>
    OutputFile_created w \<and> OutputFile_werr w 0 \<longrightarrow>
      exec w s WriterStep = Some (s\<lparr>panicked := Some PanicWrite\<rparr>)) \<and>
   (panicked s = None \<and> main s \<noteq> MainExit \<and> writer s = Some (WriterWrite f item) \<and>
    (OutputFile_werr w (writes f) \<or> OutputFile_werr w (Suc (writes f))) \<longrightarrow>
      exec w s WriterStep = Some (s\<lparr>panicked := Some PanicWrite\<rparr>)) \<and>
   (panicked s = None \<and> main s \<noteq> MainExit \<and> writer s = Some (WriterRange f) \<and>
    OutText_closed s \<and> OutputFile_werr w (writes f) \<longrightarrow>
      exec w s WriterStep = Some (s\<lparr>panicked := Some PanicWrite\<rparr>)) \<and>
   (panicked s = None \<and> main s = MainSend (p # ps') \<and> i < length (workers s) \<and>
    workers s ! i = WorkerRange \<and>
    startWorker_body (ParseScript w) (xml_enc w) p no_trace = Inl e' \<longrightarrow>
      exec w s (Handoff i) = Some (s\<lparr>main := MainSend ps', panicked := Some e'\<rparr>)) \<and>
   (exec w s ev = Some s' \<and> panicked s' \<noteq> None \<longrightarrow> run w (ev # ev' # evs) s = None)"
proof (intro conjI impI)
  show "startReader None = Inl PanicOpen" by (simp add: startReader_def)
  show "startWriter False werr items = Inl PanicCreate"
    by (simp add: startWriter_def startWriter_open_def)
  show "startWriter True werr items = Inl PanicWrite" if "\<exists>k<2 * length items + 2. werr k"
    using that by (simp add: startWriter_result)
  show "startWorker_body script enc p1 t = Inl PanicMarshal"
    if "HasPrefix (body p1) ''#REDIRECT'' \<and> enc (Marshal p1) = None"
    using that startWorker_body_redirect [where script = script and enc = enc and t = t and p = p1]
    by simp
  show "startWorker_body script enc p2 t = Inl PanicMarshal"
    if "\<not> HasPrefix (body p2) ''#REDIRECT'' \<and> script (escape (body p2)) = Some clean \<and>
        enc (MarshalIndent (set_body (unescape clean) p2) ''  '' ''    '') = None"
    using that startWorker_body_success [where script = script and enc = enc and t = t and p = p2 and clean = clean]
    by simp
  show "startWorker script enc (p3 # ps) t = Inl e" if "startWorker_body script enc p3 t = Inl e"
    using that by (simp add: startWorker_def)
  show "exec w s ev = None" if "panicked s \<noteq> None"
    using that by (rule exec_after_panic)
  show "exec w s MainStep = Some (s\<lparr>panicked := Some PanicOpen\<rparr>)"
    if "panicked s = None \<and> main s = MainOpen \<and> InputFile w = None"
    using that by (simp add: exec_def main_step_def startReader_def)
  show "exec w s WriterStep = Some (s\<lparr>panicked := Some PanicCreate\<rparr>)"
    if "panicked s = None \<and> main s \<noteq> MainExit \<and> writer s = Some WriterCreate \<and>
        \<not> OutputFile_created w"
    using that by (simp add: exec_def writer_step_def startWriter_open_def)
  show "exec w s WriterStep = Some (s\<lparr>panicked := Some PanicWrite\<rparr>)"
    if "panicked s = None \<and> main s \<noteq> MainExit \<and> writer s = Some WriterCreate \<and>
        OutputFile_created w \<and> OutputFile_werr w 0"
    using that by (simp add: exec_def writer_step_def startWriter_open_def Write_def)
  show "exec w s WriterStep = Some (s\<lparr>panicked := Some PanicWrite\<rparr>)"
    if "panicked s = None \<and> main s \<noteq> MainExit \<and> writer s = Some (WriterWrite f item) \<and>
        (OutputFile_werr w (writes f) \<or> OutputFile_werr w (Suc (writes f)))"
    using that by (auto simp: exec_def writer_step_def startWriter_body_def Write_def Let_def)
  show "exec w s WriterStep = Some (s\<lparr>panicked := Some PanicWrite\<rparr>)"
    if "panicked s = None \<and> main s \<noteq> MainExit \<and> writer s = Some (WriterRange f) \<and>
        OutText_closed s \<and> OutputFile_werr w (writes f)"
    using that by (simp add: exec_def writer_step_def startWriter_close_def Write_def)
  show "exec w s (Handoff i) = Some (s\<lparr>main := MainSend ps', panicked := Some e'\<rparr>)"
    if "panicked s = None \<and> main s = MainSend (p # ps') \<and> i < length (workers s) \<and>
        workers s ! i = WorkerRange \<and>
        startWorker_body (ParseScript w) (xml_enc w) p no_trace = Inl e'"
    using that by (simp add: exec_def handoff_def)
  show "run w (ev # ev' # evs) s = None" if "exec w s ev = Some s' \<and> panicked s' \<noteq> None"
    using that by (simp add: exec_after_panic)
qed

theorem fatal_conditions_abort_witness:
  "(\<exists>k<2 * length [''a'', ''b''] + 2. write_fails_at 2 k) \<and>
   startWriter True (write_fails_at 2) [''a'', ''b''] = Inl PanicWrite \<and>
   HasPrefix (body cat_redirect) ''#REDIRECT'' \<and> failing_enc (Marshal cat_redirect) = None \<and>
   startWorker_body identity_script failing_enc cat_redirect no_trace = Inl PanicMarshal \<and>
   \<not> HasPrefix (body dog_animal) ''#REDIRECT'' \<and>
   identity_script (escape (body dog_animal)) = Some ''Animal.'' \<and>
   failing_enc (MarshalIndent (set_body (unescape ''Animal.'') dog_animal) ''  '' ''    '') = None \<and>
   startWorker_body identity_script failing_enc dog_animal no_trace = Inl PanicMarshal \<and>
   startWorker identity_script failing_enc (dog_animal # [dog_other]) no_trace = Inl PanicMarshal \<and>
   run (two_workers\<lparr>InputFile := None\<rparr>) [MainStep, MainStep, MainStep, MainStep, MainStep]
     Start_state =
     Some \<lparr>main = MainOpen, workers = [WorkerAdd, WorkerAdd], writer = Some WriterCreate,
           wg = 0, InPage_closed = False, OutText_closed = False, received = [],
           panicked = Some PanicOpen\<rparr> \<and>
   run (two_workers\<lparr>InputFile := None\<rparr>)
     [MainStep, MainStep, MainStep, MainStep, MainStep, WorkerStep 0] Start_state = None \<and>
   run (two_workers\<lparr>OutputFile_created := False\<rparr>)
     [MainStep, MainStep, MainStep, MainStep, WriterStep] Start_state =
     Some \<lparr>main = MainOpen, workers = [WorkerAdd, WorkerAdd], writer = Some WriterCreate,
           wg = 0, InPage_closed = False, OutText_closed = False, received = [],
           panicked = Some PanicCreate\<rparr> \<and>
   run (two_workers\<lparr>OutputFile_werr := write_fails_at 0\<rparr>)
     [MainStep, MainStep, MainStep, MainStep, WriterStep] Start_state =
     Some \<lparr>main = MainOpen, workers = [WorkerAdd, WorkerAdd], writer = Some WriterCreate,
           wg = 0, InPage_closed = False, OutText_closed = False, received = [],
           panicked = Some PanicWrite\<rparr> \<and>
   run (two_workers\<lparr>OutputFile_werr := write_fails_at 2\<rparr>)
     [MainStep, MainStep, MainStep, MainStep, MainStep, WorkerStep 0, WriterStep, Handoff 0,
      WorkerStep 0, WriterStep] Start_state =
     Some \<lparr>main = MainSend [], workers = [WorkerRange, WorkerAdd],
           writer = Some (WriterWrite \<lparr>content = head, writes = 1\<rparr> ''  Dog:Animal.''),
           wg = 1, InPage_closed = False, OutText_closed = False,
           received = [''  Dog:Animal.''], panicked = Some PanicWrite\<rparr> \<and>
   run (two_workers\<lparr>OutputFile_werr := write_fails_at 3\<rparr>)
     (late_worker_schedule @ [WriterStep]) Start_state =
     Some \<lparr>main = MainReturn, workers = [WorkerDone, WorkerAdd],
           writer = Some (WriterRange \<lparr>content = head @ ''\<newline>  Dog:Animal.'', writes = 3\<rparr>),
           wg = 0, InPage_closed = True, OutText_closed = True,
           received = [''  Dog:Animal.''], panicked = Some PanicWrite\<rparr> \<and>
   run (two_workers\<lparr>xml_enc := failing_enc\<rparr>)
     [MainStep, MainStep, MainStep, MainStep, MainStep, WorkerStep 0, Handoff 0] Start_state =
     Some \<lparr>main = MainSend [], workers = [WorkerRange, WorkerAdd], writer = Some WriterCreate,
           wg = 1, InPage_closed = False, OutText_closed = False, received = [],
           panicked = Some PanicMarshal\<rparr>"
proof -
  let ?s0 = "\<lparr>main = MainOpen, workers = [WorkerAdd, WorkerAdd], writer = Some WriterCreate,
           wg = 0, InPage_closed = False, OutText_closed = False, received = [],
           panicked = None\<rparr>"
  let ?s3 = "\<lparr>main = MainSend [], workers = [WorkerRange, WorkerAdd],
           writer = Some (WriterWrite \<lparr>content = head, writes = 1\<rparr> ''  Dog:Animal.''),
           wg = 1, InPage_closed = False, OutText_closed = False,
           received = [''  Dog:Animal.''], panicked = None\<rparr>"
  let ?s4 = "\<lparr>main = MainReturn, workers = [WorkerDone, WorkerAdd],
           writer = Some (WriterRange \<lparr>content = head @ ''\<newline>  Dog:Animal.'', writes = 3\<rparr>),
           wg = 0, InPage_closed = True, OutText_closed = True,
           received = [''  Dog:Animal.''], panicked = None\<rparr>"
  let ?s5 = "\<lparr>main = MainSend [dog_animal], workers = [WorkerRange, WorkerAdd],
           writer = Some WriterCreate,
           wg = 1, InPage_closed = False, OutText_closed = False, received = [],
           panicked = None\<rparr>"
  let ?w_open = "two_workers\<lparr>InputFile := None\<rparr>"
  let ?w_create = "two_workers\<lparr>OutputFile_created := False\<rparr>"
  let ?w_head = "two_workers\<lparr>OutputFile_werr := write_fails_at 0\<rparr>"
  let ?w_item = "two_workers\<lparr>OutputFile_werr := write_fails_at 2\<rparr>"
  let ?w_trailer = "two_workers\<lparr>OutputFile_werr := write_fails_at 3\<rparr>"
  let ?w_enc = "two_workers\<lparr>xml_enc := failing_enc\<rparr>"
  note ev_defs = coordinator_defs worker_defs two_workers_def late_worker_schedule_def
    example_page_def dog_animal_def identity_script_def example_enc_def failing_enc_def
    no_write_error_def write_fails_at_def

  have h1: "\<exists>k<2 * length [''a'', ''b''] + 2. write_fails_at 2 k"
    by (intro exI [of _ 2]) (simp add: write_fails_at_def)
  have h2: "HasPrefix (body cat_redirect) ''#REDIRECT'' \<and> failing_enc (Marshal cat_redirect) = None"
    by (simp add: page_defs example_page_def cat_redirect_def failing_enc_def)
  have h3: "\<not> HasPrefix (body dog_animal) ''#REDIRECT'' \<and>
      identity_script (escape (body dog_animal)) = Some ''Animal.'' \<and>
      failing_enc (MarshalIndent (set_body (unescape ''Animal.'') dog_animal) ''  '' ''    '') = None"
    by (simp add: page_defs example_page_def dog_animal_def failing_enc_def identity_script_def)
  note k3 = fatal_conditions_abort [THEN conjunct2, THEN conjunct2]
  note k5 = k3 [THEN conjunct2, THEN conjunct2]
  note k7 = k5 [THEN conjunct2, THEN conjunct2]
  note k9 = k7 [THEN conjunct2, THEN conjunct2]
  note k11 = k9 [THEN conjunct2, THEN conjunct2]
  note k13 = k11 [THEN conjunct2, THEN conjunct2]
  note write_fails = k3 [THEN conjunct1, rule_format]
  note redirect_fails = k3 [THEN conjunct2, THEN conjunct1, rule_format]
  note indent_fails = k5 [THEN conjunct1, rule_format]
  note worker_stops = k5 [THEN conjunct2, THEN conjunct1, rule_format]
  note after_panic = k7 [THEN conjunct1, rule_format]
  note open_step = k7 [THEN conjunct2, THEN conjunct1, rule_format]
  note create_step = k9 [THEN conjunct1, rule_format]
  note head_step = k9 [THEN conjunct2, THEN conjunct1, rule_format]
  note item_step = k11 [THEN conjunct1, rule_format]
  note trailer_step = k11 [THEN conjunct2, THEN conjunct1, rule_format]
  note marshal_step = k13 [THEN conjunct1, rule_format]
  note run_stops = k13 [THEN conjunct2, rule_format]
  have sw: "startWriter True (write_fails_at 2) [''a'', ''b''] = Inl PanicWrite"
    using h1 by (rule write_fails)
  have sr: "startWorker_body identity_script failing_enc cat_redirect no_trace = Inl PanicMarshal"
    using h2 by (rule redirect_fails)
  have sn: "startWorker_body identity_script failing_enc dog_animal no_trace = Inl PanicMarshal"
    using h3 by (rule indent_fails [where clean = "''Animal.''"])
  have sl: "startWorker identity_script failing_enc (dog_animal # [dog_other]) no_trace = Inl PanicMarshal"
    using sn by (rule worker_stops)

  have r0: "run w [MainStep, MainStep, MainStep, MainStep] Start_state = Some ?s0"
    if "workerCount w = 2" for w
    using that by (simp add: coordinator_defs)

  have open_: "exec ?w_open ?s0 MainStep = Some (?s0\<lparr>panicked := Some PanicOpen\<rparr>)"
    by (rule open_step) (simp add: two_workers_def)
  have create: "exec ?w_create ?s0 WriterStep = Some (?s0\<lparr>panicked := Some PanicCreate\<rparr>)"
    by (rule create_step) (simp add: two_workers_def)
  have head_: "exec ?w_head ?s0 WriterStep = Some (?s0\<lparr>panicked := Some PanicWrite\<rparr>)"
    by (rule head_step) (simp add: two_workers_def write_fails_at_def)
  have item: "exec ?w_item ?s3 WriterStep = Some (?s3\<lparr>panicked := Some PanicWrite\<rparr>)"
    by (rule item_step [where f = "\<lparr>content = head, writes = 1\<rparr>" and item = "''  Dog:Animal.''"])
      (simp add: write_fails_at_def)
  have trailer: "exec ?w_trailer ?s4 WriterStep = Some (?s4\<lparr>panicked := Some PanicWrite\<rparr>)"
    by (rule trailer_step [where f = "\<lparr>content = head @ ''\<newline>  Dog:Animal.'', writes = 3\<rparr>"])
      (simp add: write_fails_at_def)
  have "startWorker_body (ParseScript ?w_enc) (xml_enc ?w_enc) dog_animal no_trace = Inl PanicMarshal"
    using sn by (simp add: two_workers_def)
  then have enc: "exec ?w_enc ?s5 (Handoff 0) =
      Some (?s5\<lparr>main := MainSend [], panicked := Some PanicMarshal\<rparr>)"
    using marshal_step [where w = ?w_enc and s = ?s5 and p = dog_animal
        and ps' = "[]" and i = 0 and e' = PanicMarshal]
    by simp

  have r3: "run ?w_item [MainStep, MainStep, MainStep, MainStep, MainStep, WorkerStep 0,
      WriterStep, Handoff 0, WorkerStep 0] Start_state = Some ?s3"
    by (simp add: ev_defs)
  have r4: "run ?w_trailer late_worker_schedule Start_state = Some ?s4"
    by (simp add: ev_defs)
  have r5: "run ?w_enc [MainStep, MainStep, MainStep, MainStep, MainStep, WorkerStep 0]
      Start_state = Some ?s5"
    by (simp add: ev_defs)

  have a1: "run ?w_open [MainStep, MainStep, MainStep, MainStep, MainStep] Start_state =
      Some (?s0\<lparr>panicked := Some PanicOpen\<rparr>)"
    using run_snoc [of ?w_open "[MainStep, MainStep, MainStep, MainStep]" MainStep Start_state]
      r0 [of ?w_open] open_ by (simp add: two_workers_def)
  have "run ?w_open (MainStep # WorkerStep 0 # []) ?s0 = None"
    using open_ by (intro run_stops [where s' = "?s0\<lparr>panicked := Some PanicOpen\<rparr>"]) simp
  then have a2: "run ?w_open [MainStep, MainStep, MainStep, MainStep, MainStep, WorkerStep 0]
      Start_state = None"
    using run_append [of ?w_open "[MainStep, MainStep, MainStep, MainStep]"
        "[MainStep, WorkerStep 0]" Start_state] r0 [of ?w_open]
    by (simp add: two_workers_def)
  have a3: "run ?w_create [MainStep, MainStep, MainStep, MainStep, WriterStep] Start_state =
      Some (?s0\<lparr>panicked := Some PanicCreate\<rparr>)"
    using run_snoc [of ?w_create "[MainStep, MainStep, MainStep, MainStep]" WriterStep Start_state]
      r0 [of ?w_create] create by (simp add: two_workers_def)
  have a4: "run ?w_head [MainStep, MainStep, MainStep, MainStep, WriterStep] Start_state =
      Some (?s0\<lparr>panicked := Some PanicWrite\<rparr>)"
    using run_snoc [of ?w_head "[MainStep, MainStep, MainStep, MainStep]" WriterStep Start_state]
      r0 [of ?w_head] head_ by (simp add: two_workers_def)
  have a5: "run ?w_item [MainStep, MainStep, MainStep, MainStep, MainStep, WorkerStep 0,
      WriterStep, Handoff 0, WorkerStep 0, WriterStep] Start_state =
      Some (?s3\<lparr>panicked := Some PanicWrite\<rparr>)"
    using run_snoc [of ?w_item "[MainStep, MainStep, MainStep, MainStep, MainStep, WorkerStep 0,
      WriterStep, Handoff 0, WorkerStep 0]" WriterStep Start_state] r3 item
    by simp
  have a6: "run ?w_trailer (late_worker_schedule @ [WriterStep]) Start_state =
      Some (?s4\<lparr>panicked := Some PanicWrite\<rparr>)"
    using run_snoc [of ?w_trailer late_worker_schedule WriterStep Start_state] r4 trailer
    by simp
  have a7: "run ?w_enc [MainStep, MainStep, MainStep, MainStep, MainStep, WorkerStep 0, Handoff 0]
      Start_state = Some (?s5\<lparr>main := MainSend [], panicked := Some PanicMarshal\<rparr>)"
    using run_snoc [of ?w_enc "[MainStep, MainStep, MainStep, MainStep, MainStep, WorkerStep 0]"
        "Handoff 0" Start_state] r5 enc
    by simp
  from h1 h2 h3 sw sr sn sl a1 a2 a3 a4 a5 a6 a7 show ?thesis by simp
qed

text \<open>
  Claim C7 (every surviving record, redirects included, is serialised with indentation).
  The claim fails for redirects: the page of Scenario B is serialised by \<open>Marshal\<close>, which
  writes no indentation.
\<close>

theorem redirect_not_indented:
  "HasPrefix (body cat_redirect) ''#REDIRECT'' \<and>
   startWorker_body failing_script example_enc cat_redirect no_trace =
     Inr \<lparr>OutText = [''Cat alias:#REDIRECT [[Cat]]''], Invocations = [],
          Marshalled = [Marshal cat_redirect], Log = [ProcessingTitle ''Cat alias'']\<rparr> \<and>
   \<not> indented (Marshal cat_redirect)"
  by (simp add: worker_defs example_page_def cat_redirect_def example_enc_def failing_script_def)

text \<open>
  Claim C7, as the code has it. An iteration of the worker on a page whose body begins
  with \<open>#REDIRECT\<close> calls \<open>Marshal\<close>, which writes no indentation, on the page as received
  and sends what it returns. An iteration on any other page on which the parse script
  succeeds calls \<open>MarshalIndent\<close>, with the prefix of two and the indent of four spaces, on
  the page with the unescaped output of the script as its body, and sends what it
  returns. An iteration on which the script fails sends nothing. So the items a worker
  sends are, page by page, those of \<open>emitted_items\<close>: every surviving non-redirect record
  is sent as its indented serialisation.
\<close>

theorem serialiser_by_branch:
  "(HasPrefix (body p1) ''#REDIRECT'' \<longrightarrow>
      startWorker_body script enc p1 t =
        (case enc (Marshal p1) of
           None \<Rightarrow> Inl PanicMarshal
         | Some item \<Rightarrow>
             Inr (t\<lparr>Log := Log t @ [ProcessingTitle (Title p1)],
                    Marshalled := Marshalled t @ [Marshal p1],
                    OutText := OutText t @ [item]\<rparr>)) \<and>
      \<not> indented (Marshal p1)) \<and>
   (\<not> HasPrefix (body p2) ''#REDIRECT'' \<and> script (escape (body p2)) = Some clean \<longrightarrow>
      startWorker_body script enc p2 t =
        (case enc (MarshalIndent (set_body (unescape clean) p2) ''  '' ''    '') of
           None \<Rightarrow> Inl PanicMarshal
         | Some item \<Rightarrow>
             Inr (t\<lparr>Log := Log t @ [ProcessingTitle (Title p2)],
                    Invocations := Invocations t @ [escape (body p2)],
                    Marshalled := Marshalled t @
                      [MarshalIndent (set_body (unescape clean) p2) ''  '' ''    ''],
                    OutText := OutText t @ [item]\<rparr>)) \<and>
      indented (MarshalIndent (set_body (unescape clean) p2) ''  '' ''    '')) \<and>
   (\<not> HasPrefix (body p3) ''#REDIRECT'' \<and> script (escape (body p3)) = None \<longrightarrow>
      startWorker_body script enc p3 t =
        Inr (t\<lparr>Log := Log t @ [ProcessingTitle (Title p3), ErrorParsingTitle (Title p3)],
               Invocations := Invocations t @ [escape (body p3)]\<rparr>)) \<and>
   map_sum id OutText (startWorker script enc ps t) =
     map_sum id ((@) (OutText t)) (emitted_items script enc ps)"
proof (intro conjI impI)
  show "startWorker_body script enc p1 t =
        (case enc (Marshal p1) of
           None \<Rightarrow> Inl PanicMarshal
         | Some item \<Rightarrow>
             Inr (t\<lparr>Log := Log t @ [ProcessingTitle (Title p1)],
                    Marshalled := Marshalled t @ [Marshal p1],
                    OutText := OutText t @ [item]\<rparr>))"
    if "HasPrefix (body p1) ''#REDIRECT''"
    using that by (rule startWorker_body_redirect)
  show "\<not> indented (Marshal p1)" by simp
  show "startWorker_body script enc p2 t =
        (case enc (MarshalIndent (set_body (unescape clean) p2) ''  '' ''    '') of
           None \<Rightarrow> Inl PanicMarshal
         | Some item \<Rightarrow>
             Inr (t\<lparr>Log := Log t @ [ProcessingTitle (Title p2)],
                    Invocations := Invocations t @ [escape (body p2)],
                    Marshalled := Marshalled t @
                      [MarshalIndent (set_body (unescape clean) p2) ''  '' ''    ''],
                    OutText := OutText t @ [item]\<rparr>))"
    if "\<not> HasPrefix (body p2) ''#REDIRECT'' \<and> script (escape (body p2)) = Some clean"
    using that startWorker_body_success [where script = script and p = p2 and clean = clean]
    by blast
  show "indented (MarshalIndent (set_body (unescape clean) p2) ''  '' ''    '')" by simp
  show "startWorker_body script enc p3 t =
        Inr (t\<lparr>Log := Log t @ [ProcessingTitle (Title p3), ErrorParsingTitle (Title p3)],
               Invocations := Invocations t @ [escape (body p3)]\<rparr>)"
    if "\<not> HasPrefix (body p3) ''#REDIRECT'' \<and> script (escape (body p3)) = None"
    using that startWorker_body_failure [where script = script and p = p3]
    by blast
  show "map_sum id OutText (startWorker script enc ps t) =
     map_sum id ((@) (OutText t)) (emitted_items script enc ps)"
    by (rule startWorker_emitted_items)
qed

theorem serialiser_by_branch_witness:
  "HasPrefix (body cat_redirect) ''#REDIRECT'' \<and>
   startWorker_body scenario_C_script example_enc cat_redirect no_trace =
     Inr \<lparr>OutText = [''Cat alias:#REDIRECT [[Cat]]''], Invocations = [],
          Marshalled = [Marshal cat_redirect], Log = [ProcessingTitle ''Cat alias'']\<rparr> \<and>
   \<not> HasPrefix (body hello_world) ''#REDIRECT'' \<and>
   scenario_C_script (escape (body hello_world)) = Some ''Hi <SPEC_START>World<SPEC_END>.'' \<and>
   startWorker_body scenario_C_script example_enc hello_world no_trace =
     Inr \<lparr>OutText = [''  Greeting:Hi [[World]].''],
          Invocations = [''Hello <SPEC_START>World<SPEC_END>.''],
          Marshalled = [MarshalIndent (example_page ''Greeting'' ''Hi [[World]].'') ''  '' ''    ''],
          Log = [ProcessingTitle ''Greeting'']\<rparr> \<and>
   indented (MarshalIndent (example_page ''Greeting'' ''Hi [[World]].'') ''  '' ''    '') \<and>
   \<not> HasPrefix (body dog_animal) ''#REDIRECT'' \<and>
   scenario_C_script (escape (body dog_animal)) = None \<and>
   startWorker_body scenario_C_script example_enc dog_animal no_trace =
     Inr \<lparr>OutText = [], Invocations = [''Animal.''], Marshalled = [],
          Log = [ProcessingTitle ''Dog'', ErrorParsingTitle ''Dog'']\<rparr> \<and>
   map_sum id OutText
     (startWorker scenario_C_script example_enc [cat_redirect, dog_animal, hello_world] no_trace) =
     Inr [''Cat alias:#REDIRECT [[Cat]]'', ''  Greeting:Hi [[World]].'']"
proof -
  let ?clean = "''Hi <SPEC_START>World<SPEC_END>.''"
  have h1: "HasPrefix (body cat_redirect) ''#REDIRECT''"
    by (simp add: page_defs example_page_def cat_redirect_def)
  have h2: "\<not> HasPrefix (body hello_world) ''#REDIRECT'' \<and>
      scenario_C_script (escape (body hello_world)) = Some ?clean"
    by (simp add: page_defs example_page_def hello_world_def scenario_C_script_def)
  have h3: "\<not> HasPrefix (body dog_animal) ''#REDIRECT'' \<and>
      scenario_C_script (escape (body dog_animal)) = None"
    by (simp add: page_defs example_page_def dog_animal_def scenario_C_script_def)
  have u: "set_body (unescape ?clean) hello_world = example_page ''Greeting'' ''Hi [[World]].''"
    by (simp add: page_defs example_page_def hello_world_def)
  note inst = serialiser_by_branch [where script = scenario_C_script and enc = example_enc
      and ?p1.0 = cat_redirect and ?p2.0 = hello_world and ?p3.0 = dog_animal
      and clean = ?clean and t = no_trace
      and ps = "[cat_redirect, dog_animal, hello_world]"]
  from inst h1 have a: "startWorker_body scenario_C_script example_enc cat_redirect no_trace =
     Inr \<lparr>OutText = [''Cat alias:#REDIRECT [[Cat]]''], Invocations = [],
          Marshalled = [Marshal cat_redirect], Log = [ProcessingTitle ''Cat alias'']\<rparr>"
    by (simp add: page_defs example_page_def cat_redirect_def example_enc_def)
  from inst h2 have b: "startWorker_body scenario_C_script example_enc hello_world no_trace =
     Inr \<lparr>OutText = [''  Greeting:Hi [[World]].''],
          Invocations = [''Hello <SPEC_START>World<SPEC_END>.''],
          Marshalled = [MarshalIndent (example_page ''Greeting'' ''Hi [[World]].'') ''  '' ''    ''],
          Log = [ProcessingTitle ''Greeting'']\<rparr>"
    unfolding u by (simp add: page_defs example_page_def hello_world_def example_enc_def)
  from inst h2 have i: "indented (MarshalIndent (example_page ''Greeting'' ''Hi [[World]].'') ''  '' ''    '')"
    unfolding u by blast
  from inst h3 have c: "startWorker_body scenario_C_script example_enc dog_animal no_trace =
     Inr \<lparr>OutText = [], Invocations = [''Animal.''], Marshalled = [],
          Log = [ProcessingTitle ''Dog'', ErrorParsingTitle ''Dog'']\<rparr>"
    by (simp add: page_defs example_page_def dog_animal_def)
  have "emitted_items scenario_C_script example_enc [cat_redirect, dog_animal, hello_world] =
     Inr [''Cat alias:#REDIRECT [[Cat]]'', ''  Greeting:Hi [[World]].'']"
    by (simp add: page_defs example_page_def cat_redirect_def dog_animal_def hello_world_def
          scenario_C_script_def example_enc_def)
  with inst have d: "map_sum id OutText
     (startWorker scenario_C_script example_enc [cat_redirect, dog_animal, hello_world] no_trace) =
     Inr [''Cat alias:#REDIRECT [[Cat]]'', ''  Greeting:Hi [[World]].'']"
    by (simp add: no_trace_def)
  from h1 h2 h3 a b i c d show ?thesis by simp
qed

text \<open>
  Claim C8 (the writer strips the encoded newline). When no write fails, the file holds
  the header, then for every item received, in the order of arrival, a newline and the
  item with \<open>&#xA;\<close> replaced by nothing, then the trailer. The replacement removes
  every occurrence of \<open>&#xA;\<close> in the item: wherever the token stands in the item, the
  result is the stripped text before it followed by the stripped text behind it.
\<close>

theorem writer_strips_encoded_newlines:
  assumes "\<forall>k<2 * length items + 2. \<not> werr k"
  shows "startWriter True werr items =
           Inr \<lparr>content = head @ concat (map (\<lambda>item. ''\<newline>'' @ ReplaceAll item ''&#xA;'' []) items) @ ''</page>'',
                writes = 2 * length items + 2\<rparr> \<and>
         ReplaceAll (u @ ''&#xA;'' @ v) ''&#xA;'' [] =
           ReplaceAll u ''&#xA;'' [] @ ReplaceAll v ''&#xA;'' []"
  using assms startWriter_result [of werr items] strip_at_occurrence [of u v]
  by (simp add: written_items_def)

theorem writer_strips_encoded_newlines_witness:
  "startWriter True no_write_error [''a&#xA;b'', ''c''] =
     Inr \<lparr>content = head @ ''\<newline>ab\<newline>c</page>'', writes = 6\<rparr> \<and>
   ReplaceAll (''a'' @ ''&#xA;'' @ ''b'') ''&#xA;'' [] =
     ReplaceAll ''a'' ''&#xA;'' [] @ ReplaceAll ''b'' ''&#xA;'' []"
proof -
  have h: "\<forall>k<2 * length [''a&#xA;b'', ''c''] + 2. \<not> no_write_error k"
    by (simp add: no_write_error_def)
  note inst = writer_strips_encoded_newlines [OF h, of "''a''" "''b''"]
  from inst have "startWriter True no_write_error [''a&#xA;b'', ''c''] =
     Inr \<lparr>content = head @ ''\<newline>ab\<newline>c</page>'', writes = 6\<rparr>"
    by (simp add: HasPrefix_def)
  moreover from inst have "ReplaceAll (''a'' @ ''&#xA;'' @ ''b'') ''&#xA;'' [] =
     ReplaceAll ''a'' ''&#xA;'' [] @ ReplaceAll ''b'' ''&#xA;'' []"
    by blast
  ultimately show ?thesis by blast
qed

text \<open>
  Claim C9 (the result queue is closed only after every worker has exited). A worker
  adds itself to the wait group in its own goroutine, so \<open>w.wg.Wait()\<close> does not wait for
  a worker that has not run yet. With two workers and one page there is a schedule in
  which the first worker handles the page and returns, the counter is back at zero,
  \<open>Start\<close> closes \<open>OutText\<close>, and the second worker has not run its first statement; it
  can still run it afterwards, and then finds \<open>InPage\<close> closed and returns. (By
  \<open>no_send_on_closed_channel\<close> no schedule makes a worker send on the closed queue.)
\<close>

theorem OutText_closed_before_worker_runs:
  "run two_workers late_worker_schedule Start_state =
     Some \<lparr>main = MainReturn, workers = [WorkerDone, WorkerAdd],
           writer = Some (WriterRange \<lparr>content = head @ ''\<newline>  Dog:Animal.'', writes = 3\<rparr>),
           wg = 0, InPage_closed = True, OutText_closed = True,
           received = [''  Dog:Animal.''], panicked = None\<rparr> \<and>
   run two_workers (late_worker_schedule @ [WorkerStep 1, WorkerStep 1]) Start_state =
     Some \<lparr>main = MainReturn, workers = [WorkerDone, WorkerDone],
           writer = Some (WriterRange \<lparr>content = head @ ''\<newline>  Dog:Animal.'', writes = 3\<rparr>),
           wg = 0, InPage_closed = True, OutText_closed = True,
           received = [''  Dog:Animal.''], panicked = None\<rparr>"
  by (simp add: coordinator_defs worker_defs example_page_def two_workers_def
        late_worker_schedule_def dog_animal_def no_write_error_def identity_script_def
        example_enc_def)

text \<open>
  Claim C10 (a sentinel in the original body is not restored). Take a page that is no
  redirect and whose body contains \<open><SPEC_START>\<close> or \<open><SPEC_END>\<close>, and a parse script
  that returns its input. The body the worker serialises is the escaped body with the
  sentinels replaced; it contains no sentinel and so differs from the original body.
  Wherever \<open><SPEC_START>\<close> stands in a body, escaping and then replacing the sentinels
  puts \<open>[[\<close> there, and \<open>]]\<close> where \<open><SPEC_END>\<close> stands. A body that contains neither
  sentinel comes back unchanged.
\<close>

theorem sentinel_in_body_not_restored:
  assumes "\<not> HasPrefix (body p) ''#REDIRECT''"
    and "sublist SPEC_START (body p) \<or> sublist SPEC_END (body p)"
    and "script (escape (body p)) = Some (escape (body p))"
    and "startWorker_body script enc p t = Inr t'"
  shows "(\<exists>q. Marshalled t' = Marshalled t @ [MarshalIndent q ''  '' ''    ''] \<and>
              body q = unescape (escape (body p)) \<and> body q \<noteq> body p \<and>
              \<not> sublist SPEC_START (body q) \<and> \<not> sublist SPEC_END (body q)) \<and>
         unescape (escape (u @ SPEC_START @ v)) = unescape (escape u) @ ''[['' @ unescape (escape v) \<and>
         unescape (escape (u @ SPEC_END @ v)) = unescape (escape u) @ '']]'' @ unescape (escape v) \<and>
         (\<not> sublist SPEC_START b \<and> \<not> sublist SPEC_END b \<longrightarrow> unescape (escape b) = b)"
proof (intro conjI)
  let ?b = "unescape (escape (body p))"
  let ?q = "set_body ?b p"
  have ns: "\<not> sublist SPEC_START ?b" "\<not> sublist SPEC_END ?b"
    by (rule unescape_no_sentinel)+
  with assms(2) have ne: "?b \<noteq> body p" by auto
  have "Marshalled t' = Marshalled t @ [MarshalIndent ?q ''  '' ''    '']"
    using assms(4) startWorker_body_success [where script = script and enc = enc and t = t, OF assms(1) assms(3)]
    by (cases "enc (MarshalIndent ?q ''  '' ''    '')") auto
  with ns ne show "\<exists>q. Marshalled t' = Marshalled t @ [MarshalIndent q ''  '' ''    ''] \<and>
              body q = unescape (escape (body p)) \<and> body q \<noteq> body p \<and>
              \<not> sublist SPEC_START (body q) \<and> \<not> sublist SPEC_END (body q)"
    by (intro exI [of _ ?q]) simp
  show "unescape (escape (u @ SPEC_START @ v)) = unescape (escape u) @ ''[['' @ unescape (escape v)"
    by (simp only: escape_SPEC_START unescape_SPEC_START)
  show "unescape (escape (u @ SPEC_END @ v)) = unescape (escape u) @ '']]'' @ unescape (escape v)"
    by (simp only: escape_SPEC_END unescape_SPEC_END)
  show "\<not> sublist SPEC_START b \<and> \<not> sublist SPEC_END b \<longrightarrow> unescape (escape b) = b"
    using round_trip_without_sentinel [of b] by blast
qed

theorem sentinel_in_body_not_restored_witness:
  "\<not> HasPrefix (body sentinel_note) ''#REDIRECT'' \<and>
   sublist SPEC_START (body sentinel_note) \<and>
   identity_script (escape (body sentinel_note)) = Some (escape (body sentinel_note)) \<and>
   startWorker_body identity_script example_enc sentinel_note no_trace =
     Inr \<lparr>OutText = [''  Note:see [[''], Invocations = [''see <SPEC_START>''],
          Marshalled = [MarshalIndent (example_page ''Note'' ''see [['') ''  '' ''    ''],
          Log = [ProcessingTitle ''Note'']\<rparr> \<and>
   body (example_page ''Note'' ''see [['') \<noteq> body sentinel_note \<and>
   unescape (escape (''see '' @ SPEC_START @ [])) = unescape (escape ''see '') @ ''[['' @ unescape (escape []) \<and>
   \<not> sublist SPEC_START (body hello_world) \<and> \<not> sublist SPEC_END (body hello_world) \<and>
   unescape (escape (body hello_world)) = body hello_world"
proof -
  let ?q = "example_page ''Note'' ''see [[''"
  let ?t = "\<lparr>OutText = [''  Note:see [[''], Invocations = [''see <SPEC_START>''],
          Marshalled = [MarshalIndent ?q ''  '' ''    ''], Log = [ProcessingTitle ''Note'']\<rparr>"
  have h1: "\<not> HasPrefix (body sentinel_note) ''#REDIRECT''"
    by (simp add: page_defs example_page_def hello_world_def sentinel_note_def example_enc_def
          identity_script_def)
  have s: "sublist SPEC_START (body sentinel_note)"
    by (simp add: page_defs example_page_def hello_world_def sentinel_note_def example_enc_def
          identity_script_def sublist_Cons_right)
  then have h2: "sublist SPEC_START (body sentinel_note) \<or> sublist SPEC_END (body sentinel_note)" ..
  have h3: "identity_script (escape (body sentinel_note)) = Some (escape (body sentinel_note))"
    by (simp add: identity_script_def)
  have h4: "startWorker_body identity_script example_enc sentinel_note no_trace = Inr ?t"
    by (simp add: worker_defs example_page_def hello_world_def sentinel_note_def example_enc_def
          identity_script_def)
  have f: "\<not> sublist SPEC_START (body hello_world) \<and> \<not> sublist SPEC_END (body hello_world)"
    by (simp add: page_defs example_page_def hello_world_def sentinel_note_def example_enc_def
          identity_script_def sublist_Cons_right)
  note inst = sentinel_in_body_not_restored [where script = identity_script and enc = example_enc
      and p = sentinel_note and t = no_trace and u = "''see ''" and v = "[]"
      and b = "body hello_world", OF h1 h2 h3 h4]
  from inst obtain q where
    q: "Marshalled ?t = Marshalled no_trace @ [MarshalIndent q ''  '' ''    '']"
       "body q \<noteq> body sentinel_note"
    by blast
  from q(1) have "q = ?q" by (simp add: no_trace_def)
  with q(2) have "body ?q \<noteq> body sentinel_note" by simp
  moreover from inst have
    "unescape (escape (''see '' @ SPEC_START @ [])) = unescape (escape ''see '') @ ''[['' @ unescape (escape [])"
    by blast
  moreover from inst f have "unescape (escape (body hello_world)) = body hello_world"
    by blast
  ultimately show ?thesis using h1 s h3 h4 f by blast
qed

end
